theory Spec2Isabelle
  imports Main "HOL-Library.Sublist"
begin

section \<open>LSDynaToRaw: the keyfile tokenizer, the block parser and the mesh transforms\<close>

text \<open>
  A shallow embedding of \<^verbatim>\<open>src/LSDynaToRaw/LSDynaToRaw.cpp\<close> (the first, current version
  of the file; the text after the separator line is an older draft of the same program).

  Conventions of the embedding.
  \<^item> The input stream is the list of characters not yet read. \<^verbatim>\<open>char c = stream.peek()\<close>
    stores the \<^verbatim>\<open>int\<close> result in a (signed) \<^verbatim>\<open>char\<close>, so that end of input and the byte
    \<^verbatim>\<open>0xFF\<close> both compare equal to \<^verbatim>\<open>EOF\<close>; \<open>peek\<close> returns that \<^verbatim>\<open>char\<close>.
  \<^item> \<^verbatim>\<open>std::isdigit(c, loc)\<close> and \<^verbatim>\<open>std::isspace(c, loc)\<close> are taken on the ASCII range, where
    every locale agrees.
  \<^item> C++ \<^verbatim>\<open>int\<close> values are HOL integers: the program only counts lines and container
    positions with them and stores what \<^verbatim>\<open>boost::lexical_cast\<close> has range-checked.
  \<^item> An exception is a value of type \<open>error\<close>. A method of \<^verbatim>\<open>KeyFile\<close> that throws returns
    the error together with the object as it stands at the throw; the free functions
    \<^verbatim>\<open>IsolatePart\<close> and \<^verbatim>\<open>Renumber_Nodes\<close> return the error alone, their result being lost.
  \<^item> The \<^verbatim>\<open>while\<close> loops of the parser end only when the lexer delivers the token they wait
    for; they take a bound on their rounds, and exceeding it is the outcome \<open>Diverges\<close>.
    The loops of the lexer and the \<^verbatim>\<open>for\<close> loops are total.
\<close>

subsection \<open>Tokens and the lexer object\<close>

text \<open>
  \<^verbatim>\<open>LexerSymbol::SymbolType\<close>. A default-constructed \<^verbatim>\<open>LexerSymbol\<close> leaves \<^verbatim>\<open>type\<close>
  uninitialised; the extra tag \<open>INDETERMINATE\<close> stands for that value.
\<close>

datatype SymbolType =
  WHITESPACE | NEWLINE | COMMENT | COMMA | ASTERISK | WORD | NUMBER | END_OF_FILE
  | INDETERMINATE

record LexerSymbol =
  type :: SymbolType
  symbol :: string

definition default_symbol :: LexerSymbol where
  "default_symbol = \<lparr>type = INDETERMINATE, symbol = []\<rparr>"

record KeyFileLexer =
  stream :: string
  state :: int
  currentSymbol :: LexerSymbol
  current_line :: int

text \<open>The constructor \<^verbatim>\<open>KeyFileLexer(std::istream &)\<close>: state 0, line 1.\<close>

definition new_KeyFileLexer :: "string \<Rightarrow> KeyFileLexer" where
  "new_KeyFileLexer s =
     \<lparr>stream = s, state = 0, currentSymbol = default_symbol, current_line = 1\<rparr>"

subsection \<open>The character source\<close>

definition EOF_char :: char where
  "EOF_char = CHR 0xFF"

definition newline :: char where
  "newline = CHR 0x0A"

definition peek :: "string \<Rightarrow> char" where
  "peek s = (case s of [] \<Rightarrow> EOF_char | c # _ \<Rightarrow> c)"

text \<open>\<^verbatim>\<open>stream.ignore()\<close> drops one character; at end of input it does nothing.\<close>

definition ignore :: "KeyFileLexer \<Rightarrow> KeyFileLexer" where
  "ignore L = L\<lparr>stream := tl (stream L)\<rparr>"

text \<open>\<^verbatim>\<open>S.symbol += stream.get()\<close>.\<close>

definition get_append :: "LexerSymbol \<Rightarrow> KeyFileLexer \<Rightarrow> LexerSymbol \<times> KeyFileLexer" where
  "get_append S L = (S\<lparr>symbol := symbol S @ [peek (stream L)]\<rparr>, ignore L)"

definition isdigit :: "char \<Rightarrow> bool" where
  "isdigit c = (c \<in> set ''0123456789'')"

definition isspace :: "char \<Rightarrow> bool" where
  "isspace c = (c \<in> set [CHR 0x20, CHR 0x09, CHR 0x0A, CHR 0x0B, CHR 0x0C, CHR 0x0D])"

text \<open>
  The loop \<^verbatim>\<open>while ((c = stream.peek()) != '\n' && P(c) && c != EOF) S.symbol += stream.get();\<close>
  moves the longest run of such characters from the stream to the symbol.
\<close>

definition loop_cond :: "(char \<Rightarrow> bool) \<Rightarrow> char \<Rightarrow> bool" where
  "loop_cond P c = (c \<noteq> newline \<and> P c \<and> c \<noteq> EOF_char)"

definition get_while :: "(char \<Rightarrow> bool) \<Rightarrow> LexerSymbol \<Rightarrow> KeyFileLexer \<Rightarrow> LexerSymbol \<times> KeyFileLexer" where
  "get_while P S L =
     (S\<lparr>symbol := symbol S @ takeWhile (loop_cond P) (stream L)\<rparr>,
      L\<lparr>stream := dropWhile (loop_cond P) (stream L)\<rparr>)"

subsection \<open>The \<^verbatim>\<open>Accept\<close> methods\<close>

text \<open>
  \<^verbatim>\<open>IgnoreComment\<close>: skips to the newline (or to what compares equal to \<^verbatim>\<open>EOF\<close>); the test
  \<^verbatim>\<open>if (c = '\n')\<close> is an assignment, so one more character is always dropped. The
  returned character is \<^verbatim>\<open>stream.peek()\<close> of the lexer returned here.
\<close>

definition IgnoreComment :: "KeyFileLexer \<Rightarrow> KeyFileLexer" where
  "IgnoreComment L =
     ignore (L\<lparr>stream := dropWhile (\<lambda>c. c \<noteq> newline \<and> c \<noteq> EOF_char) (stream L)\<rparr>)"

definition AcceptAsterisk :: "KeyFileLexer \<Rightarrow> LexerSymbol \<times> KeyFileLexer" where
  "AcceptAsterisk L = (\<lparr>type = ASTERISK, symbol = ''*''\<rparr>, (ignore L)\<lparr>state := 1\<rparr>)"

definition AcceptNewline :: "KeyFileLexer \<Rightarrow> LexerSymbol \<times> KeyFileLexer" where
  "AcceptNewline L = (\<lparr>type = NEWLINE, symbol = [newline]\<rparr>, (ignore L)\<lparr>state := 0\<rparr>)"

definition AcceptWhitespace :: "KeyFileLexer \<Rightarrow> LexerSymbol \<times> KeyFileLexer" where
  "AcceptWhitespace L =
     (let (S, L) = get_append \<lparr>type = WHITESPACE, symbol = []\<rparr> L;
          (S, L) = get_while isspace S L
      in (S, L\<lparr>state := 1\<rparr>))"

definition AcceptWord :: "KeyFileLexer \<Rightarrow> LexerSymbol \<times> KeyFileLexer" where
  "AcceptWord L =
     (let (S, L) = get_append \<lparr>type = WORD, symbol = []\<rparr> L;
          (S, L) = get_while (\<lambda>c. \<not> isspace c) S L
      in (S, L\<lparr>state := 1\<rparr>))"

text \<open>\<^verbatim>\<open>AcceptNumber\<close> does not assign \<^verbatim>\<open>state\<close>.\<close>

definition AcceptNumber :: "KeyFileLexer \<Rightarrow> LexerSymbol \<times> KeyFileLexer" where
  "AcceptNumber L =
     (let (S, L) = get_append \<lparr>type = NUMBER, symbol = []\<rparr> L;
          \<comment> \<open>First digits\<close>
          (S, L) = get_while isdigit S L;
          \<comment> \<open>We may encounter a decimal place\<close>
          (S, L) = (if peek (stream L) = CHR ''.'' then get_append S L else (S, L));
          \<comment> \<open>Digits after decimal place\<close>
          (S, L) = get_while isdigit S L;
          \<comment> \<open>Possible exponent\<close>
          (S, L) = (if peek (stream L) = CHR ''e'' \<or> peek (stream L) = CHR ''E''
                    then get_append S L else (S, L));
          \<comment> \<open>possible negative sign or positive sign\<close>
          (S, L) = (if peek (stream L) = CHR ''-'' \<or> peek (stream L) = CHR ''+''
                    then get_append S L else (S, L));
          \<comment> \<open>Exponent\<close>
          (S, L) = get_while isdigit S L
      in (S, L))"

subsection \<open>\<^verbatim>\<open>KeyFileLexer::NextSymbol\<close>\<close>

text \<open>
  The loop \<^verbatim>\<open>while (c == '$') { c = IgnoreComment(); current_line += 1; }\<close>, where \<^verbatim>\<open>c\<close> is
  \<^verbatim>\<open>stream.peek()\<close> before the loop and after every round.
\<close>

function skip_comments :: "KeyFileLexer \<Rightarrow> KeyFileLexer" where
  "skip_comments L =
     (if peek (stream L) = CHR ''$''
      then skip_comments ((IgnoreComment L)\<lparr>current_line := current_line L + 1\<rparr>)
      else L)"
  by pat_completeness auto
termination
proof (relation "measure (\<lambda>L. length (stream L))")
  show "wf (measure (\<lambda>L. length (stream L)))" by simp
next
  fix L :: KeyFileLexer
  assume a: "peek (stream L) = CHR ''$''"
  then obtain cs where s: "stream L = CHR ''$'' # cs"
    by (cases "stream L") (auto simp: peek_def EOF_char_def)
  have "length (tl (dropWhile (\<lambda>c. c \<noteq> newline \<and> c \<noteq> EOF_char) (stream L))) < length (stream L)"
    using length_dropWhile_le [of "\<lambda>c. c \<noteq> newline \<and> c \<noteq> EOF_char" cs]
    by (simp add: s newline_def EOF_char_def)
  then show "((IgnoreComment L)\<lparr>current_line := current_line L + 1\<rparr>, L)
      \<in> measure (\<lambda>L. length (stream L))"
    by (simp add: IgnoreComment_def ignore_def)
qed

text \<open>The inner \<^verbatim>\<open>switch (c)\<close> of state 0 (line start) and of state 1 (mid line).\<close>

definition is_blank :: "char \<Rightarrow> bool" where
  "is_blank c = (c \<in> set [CHR 0x20, CHR 0x09, CHR 0x0C, CHR 0x0B])"

definition is_number_start :: "char \<Rightarrow> bool" where
  "is_number_start c = (c \<in> set ''0123456789-'')"

definition switch_line_start :: "KeyFileLexer \<Rightarrow> LexerSymbol \<times> KeyFileLexer" where
  "switch_line_start L =
     (let c = peek (stream L) in
      if c = CHR ''*'' then AcceptAsterisk L
      else if c = newline then
        (let (S, L) = AcceptNewline L in (S, L\<lparr>current_line := current_line L + 1\<rparr>))
      else if is_blank c then AcceptWhitespace L
      else if c = CHR '','' then (\<lparr>type = COMMA, symbol = '',''\<rparr>, L)
      else if is_number_start c then AcceptNumber L
      else if c = EOF_char then (default_symbol\<lparr>type := END_OF_FILE\<rparr>, L\<lparr>state := - 1\<rparr>)
      else AcceptWord L)"

definition switch_mid_line :: "KeyFileLexer \<Rightarrow> LexerSymbol \<times> KeyFileLexer" where
  "switch_mid_line L =
     (let c = peek (stream L) in
      if c = newline then
        (let (S, L) = AcceptNewline L in (S, L\<lparr>current_line := current_line L + 1\<rparr>))
      else if is_blank c then AcceptWhitespace L
      else if is_number_start c then AcceptNumber L
      else if c = EOF_char then (default_symbol\<lparr>type := END_OF_FILE\<rparr>, L\<lparr>state := - 1\<rparr>)
      else AcceptWord L)"

text \<open>
  In any other state (\<open>-1\<close>, after end of file) the outer \<^verbatim>\<open>switch\<close> does nothing and the
  default-constructed symbol is returned.
\<close>

definition NextSymbol :: "KeyFileLexer \<Rightarrow> LexerSymbol \<times> KeyFileLexer" where
  "NextSymbol L =
     (let (S, L) =
        (if state L = 0 then switch_line_start (skip_comments L)
         else if state L = 1 then switch_mid_line L
         else (default_symbol, L))
      in (S, L\<lparr>currentSymbol := S\<rparr>))"

text \<open>The tokens of \<open>n\<close> successive calls of \<^verbatim>\<open>NextSymbol\<close>, and the lexer after them.\<close>

fun symbols :: "nat \<Rightarrow> KeyFileLexer \<Rightarrow> LexerSymbol list \<times> KeyFileLexer" where
  "symbols 0 L = ([], L)"
| "symbols (Suc n) L =
     (let (S, L1) = NextSymbol L; (Ss, L2) = symbols n L1 in (S # Ss, L2))"

subsection \<open>Exceptions\<close>

text \<open>
  \<^item> \<open>SyntaxError n\<close>: \<^verbatim>\<open>std::runtime_error("Line n: Could not parse file: element list appears
    to be malformed.")\<close>, where \<open>n\<close> is \<^verbatim>\<open>lexer->GetCurrentLine()\<close> at the throw;
  \<^item> \<open>DuplicateIdError\<close>: \<^verbatim>\<open>std::runtime_error("Found two elements with the same element id")\<close>;
  \<^item> \<open>bad_lexical_cast\<close>: thrown by \<^verbatim>\<open>boost::lexical_cast\<close>;
  \<^item> \<open>out_of_range\<close>: thrown by \<^verbatim>\<open>std::vector::at\<close>.
\<close>

datatype error = SyntaxError int | DuplicateIdError | bad_lexical_cast | out_of_range

definition bindE :: "error + 'a \<Rightarrow> ('a \<Rightarrow> error + 'b) \<Rightarrow> error + 'b" where
  "bindE m f = (case m of Inl e \<Rightarrow> Inl e | Inr v \<Rightarrow> f v)"

text \<open>\<^verbatim>\<open>v.at(k)\<close> for an \<^verbatim>\<open>int k\<close>: a negative \<open>k\<close> converts to a huge \<^verbatim>\<open>size_t\<close>.\<close>

definition at :: "'a list \<Rightarrow> int \<Rightarrow> error + 'a" where
  "at v k = (if 0 \<le> k \<and> k < int (length v) then Inr (v ! nat k) else Inl out_of_range)"

text \<open>
  \<^verbatim>\<open>m[k]\<close> on a \<^verbatim>\<open>std::map<int, int>\<close>: a key that is absent is inserted with the value 0.
  The result is the value read and the map after the access.
\<close>

definition subscript :: "(int \<rightharpoonup> int) \<Rightarrow> int \<Rightarrow> int \<times> (int \<rightharpoonup> int)" where
  "subscript m k = (case m k of None \<Rightarrow> (0, m(k \<mapsto> 0)) | Some v \<Rightarrow> (v, m))"

text \<open>A \<^verbatim>\<open>for (int i = 0; i < n; ++i)\<close> loop whose body may throw, over the positions given.\<close>

fun for_loop :: "nat list \<Rightarrow> (nat \<Rightarrow> 's \<Rightarrow> error + 's) \<Rightarrow> 's \<Rightarrow> error + 's" where
  "for_loop [] body s = Inr s"
| "for_loop (i # js) body s = bindE (body i s) (for_loop js body)"

subsection \<open>The mesh model\<close>

text \<open>
  \<^verbatim>\<open>Nodes\<close>, \<^verbatim>\<open>Elements\<close> and \<^verbatim>\<open>FiniteElementObject\<close> keep one vector per field. \<open>'d\<close> is
  \<^verbatim>\<open>double\<close>: the program only stores and copies coordinates, and \<^verbatim>\<open>resize\<close> fills with
  zero. \<^verbatim>\<open>nids\<close> is a \<^verbatim>\<open>vector<double>\<close> that only ever holds \<^verbatim>\<open>int\<close> values, which a
  \<^verbatim>\<open>double\<close> represents exactly; it is a list of integers here.
\<close>

record 'd Nodes =
  nids :: "int list"
  x :: "'d list"
  y :: "'d list"
  z :: "'d list"

type_synonym 'd Node = "'d \<times> 'd \<times> 'd"

type_synonym Element = "int \<times> int \<times> int \<times> int \<times> int \<times> int \<times> int \<times> int"

record Elements =
  eids :: "int list"
  pids :: "int list"
  n1 :: "int list"
  n2 :: "int list"
  n3 :: "int list"
  n4 :: "int list"
  n5 :: "int list"
  n6 :: "int list"
  n7 :: "int list"
  n8 :: "int list"

record 'd FiniteElementObject =
  nodes :: "'d Nodes"
  elements :: Elements
  element_index :: "int \<rightharpoonup> int"
  node_index :: "int \<rightharpoonup> int"

definition empty_Nodes :: "'d Nodes" where
  "empty_Nodes = \<lparr>nids = [], x = [], y = [], z = []\<rparr>"

definition empty_Elements :: Elements where
  "empty_Elements =
     \<lparr>eids = [], pids = [], n1 = [], n2 = [], n3 = [], n4 = [], n5 = [], n6 = [], n7 = [], n8 = []\<rparr>"

definition empty_FiniteElementObject :: "'d FiniteElementObject" where
  "empty_FiniteElementObject =
     \<lparr>nodes = empty_Nodes, elements = empty_Elements,
      element_index = Map.empty, node_index = Map.empty\<rparr>"

definition AddNode :: "'d Nodes \<Rightarrow> int \<Rightarrow> 'd Node \<Rightarrow> 'd Nodes" where
  "AddNode ns nid p =
     (case p of (x1, y1, z1) \<Rightarrow>
        ns\<lparr>nids := nids ns @ [nid], x := x ns @ [x1], y := y ns @ [y1], z := z ns @ [z1]\<rparr>)"

definition push_element :: "Elements \<Rightarrow> int \<Rightarrow> int \<Rightarrow> Element \<Rightarrow> Elements" where
  "push_element es eid pid e =
     (case e of (a1, a2, a3, a4, a5, a6, a7, a8) \<Rightarrow>
        es\<lparr>eids := eids es @ [eid], pids := pids es @ [pid],
           n1 := n1 es @ [a1], n2 := n2 es @ [a2], n3 := n3 es @ [a3], n4 := n4 es @ [a4],
           n5 := n5 es @ [a5], n6 := n6 es @ [a6], n7 := n7 es @ [a7], n8 := n8 es @ [a8]\<rparr>)"

text \<open>\<^verbatim>\<open>Elements::AddElement\<close>: the ten \<^verbatim>\<open>push_back\<close>s behind the uniqueness check.\<close>

definition AddElement :: "Elements \<Rightarrow> int \<Rightarrow> int \<Rightarrow> Element \<Rightarrow> error + Elements" where
  "AddElement es eid pid e =
     (if eid \<in> set (eids es) then Inl DuplicateIdError else Inr (push_element es eid pid e))"

definition GetElement :: "Elements \<Rightarrow> int \<Rightarrow> error + Element" where
  "GetElement es k =
     bindE (at (n1 es) k) (\<lambda>a1. bindE (at (n2 es) k) (\<lambda>a2.
     bindE (at (n3 es) k) (\<lambda>a3. bindE (at (n4 es) k) (\<lambda>a4.
     bindE (at (n5 es) k) (\<lambda>a5. bindE (at (n6 es) k) (\<lambda>a6.
     bindE (at (n7 es) k) (\<lambda>a7. bindE (at (n8 es) k) (\<lambda>a8.
     Inr (a1, a2, a3, a4, a5, a6, a7, a8)))))))))"

definition GetElementID :: "Elements \<Rightarrow> int \<Rightarrow> error + int" where
  "GetElementID es k = at (eids es) k"

definition GetPartID :: "Elements \<Rightarrow> int \<Rightarrow> error + int" where
  "GetPartID es k = at (pids es) k"

subsection \<open>\<^verbatim>\<open>IsolatePart\<close>\<close>

text \<open>
  One of the eight blocks \<^verbatim>\<open>if (part.node_index.count(n) == 0 && n != 0) { ... }\<close>, for the
  slot value \<open>n\<close> just pushed. \<^verbatim>\<open>objects\<close> is a non-const reference, and
  \<^verbatim>\<open>objects.node_index[nid]\<close> may insert into it, so the block works on the pair of
  \<^verbatim>\<open>objects\<close> and \<^verbatim>\<open>part\<close>.
\<close>

definition copy_node ::
  "int \<Rightarrow> 'd FiniteElementObject \<times> 'd FiniteElementObject
     \<Rightarrow> error + 'd FiniteElementObject \<times> 'd FiniteElementObject" where
  "copy_node n s =
     (case s of (objects, part) \<Rightarrow>
      if node_index part n = None \<and> n \<noteq> 0 then
        (let nid = n;
             (old_index, m) = subscript (node_index objects) nid;
             objects = objects\<lparr>node_index := m\<rparr>
         in bindE (at (x (nodes objects)) old_index) (\<lambda>x1.
            bindE (at (y (nodes objects)) old_index) (\<lambda>y1.
            bindE (at (z (nodes objects)) old_index) (\<lambda>z1.
            (let ns = AddNode (nodes part) nid (x1, y1, z1)
             in Inr (objects,
                  part\<lparr>nodes := ns, node_index := (node_index part)(nid \<mapsto> int (length (x ns)) - 1)\<rparr>))))))
      else Inr s)"

text \<open>The body of the loop over the positions \<open>i\<close> of \<^verbatim>\<open>objects.elements.eids\<close>.\<close>

definition isolate_step ::
  "int \<Rightarrow> nat \<Rightarrow> 'd FiniteElementObject \<times> 'd FiniteElementObject
     \<Rightarrow> error + 'd FiniteElementObject \<times> 'd FiniteElementObject" where
  "isolate_step pid i s =
     (case s of (objects, part) \<Rightarrow>
      bindE (at (pids (elements objects)) (int i)) (\<lambda>p.
      if p = pid then
        bindE (at (eids (elements objects)) (int i)) (\<lambda>eid.
        bindE (GetElement (elements objects) (int i)) (\<lambda>e.
        (let es = push_element (elements part) eid p e;
             part = part\<lparr>elements := es,
                     element_index := (element_index part)(eid \<mapsto> int (length (eids es)) - 1)\<rparr>
         in bindE (copy_node (last (n1 es)) (objects, part)) (\<lambda>s.
            bindE (copy_node (last (n2 es)) s) (\<lambda>s.
            bindE (copy_node (last (n3 es)) s) (\<lambda>s.
            bindE (copy_node (last (n4 es)) s) (\<lambda>s.
            bindE (copy_node (last (n5 es)) s) (\<lambda>s.
            bindE (copy_node (last (n6 es)) s) (\<lambda>s.
            bindE (copy_node (last (n7 es)) s) (\<lambda>s.
            copy_node (last (n8 es)) s))))))))))
      else Inr s))"

text \<open>
  \<^verbatim>\<open>IsolatePart(parts, objects, pid)\<close>: the result is the part returned and \<^verbatim>\<open>objects\<close> as
  the call leaves it. The parameter \<^verbatim>\<open>parts\<close> is not used by the function.
\<close>

definition IsolatePart ::
  "(int \<rightharpoonup> Elements) \<Rightarrow> 'd FiniteElementObject \<Rightarrow> int
     \<Rightarrow> error + 'd FiniteElementObject \<times> 'd FiniteElementObject" where
  "IsolatePart parts objects pid =
     bindE (for_loop [0..<length (eids (elements objects))] (isolate_step pid)
              (objects, empty_FiniteElementObject))
       (\<lambda>s. case s of (objects, part) \<Rightarrow> Inr (part, objects))"

subsection \<open>\<^verbatim>\<open>Renumber_Nodes\<close>\<close>

text \<open>The first loop, over the positions \<open>j\<close> of \<^verbatim>\<open>part.nodes.nids\<close>.\<close>

definition renumber_node ::
  "'d FiniteElementObject \<Rightarrow> nat \<Rightarrow> (int \<rightharpoonup> int) \<times> 'd FiniteElementObject
     \<Rightarrow> error + (int \<rightharpoonup> int) \<times> 'd FiniteElementObject" where
  "renumber_node part j s =
     (case s of (node_remap, R) \<Rightarrow>
      bindE (at (nids (nodes part)) (int j)) (\<lambda>nid.
      bindE (at (x (nodes part)) (int j)) (\<lambda>x1.
      bindE (at (y (nodes part)) (int j)) (\<lambda>y1.
      bindE (at (z (nodes part)) (int j)) (\<lambda>z1.
      Inr (node_remap(nid \<mapsto> int j + 1),
           R\<lparr>nodes := (nodes R)\<lparr>nids := (nids (nodes R))[j := int j + 1],
                                  x := (x (nodes R))[j := x1],
                                  y := (y (nodes R))[j := y1],
                                  z := (z (nodes R))[j := z1]\<rparr>,
             node_index := (node_index R)(int j + 1 \<mapsto> int j)\<rparr>))))))"

text \<open>
  The eight assignments \<^verbatim>\<open>get<k>(ej_new) = node_remap[get<k>(ej)]\<close>, in order; each may
  insert into \<^verbatim>\<open>node_remap\<close>.
\<close>

definition remap_element :: "(int \<rightharpoonup> int) \<Rightarrow> Element \<Rightarrow> Element \<times> (int \<rightharpoonup> int)" where
  "remap_element m e =
     (case e of (a1, a2, a3, a4, a5, a6, a7, a8) \<Rightarrow>
      (let (b1, m) = subscript m a1; (b2, m) = subscript m a2;
           (b3, m) = subscript m a3; (b4, m) = subscript m a4;
           (b5, m) = subscript m a5; (b6, m) = subscript m a6;
           (b7, m) = subscript m a7; (b8, m) = subscript m a8
       in ((b1, b2, b3, b4, b5, b6, b7, b8), m)))"

text \<open>The second loop, over the positions \<open>j\<close> of \<^verbatim>\<open>part.elements.eids\<close>.\<close>

definition renumber_element ::
  "'d FiniteElementObject \<Rightarrow> nat \<Rightarrow> (int \<rightharpoonup> int) \<times> 'd FiniteElementObject
     \<Rightarrow> error + (int \<rightharpoonup> int) \<times> 'd FiniteElementObject" where
  "renumber_element part j s =
     (case s of (node_remap, R) \<Rightarrow>
      bindE (GetElement (elements part) (int j)) (\<lambda>ej.
      (let (ej_new, node_remap) = remap_element node_remap ej
       in bindE (GetElementID (elements part) (int j)) (\<lambda>eid.
          bindE (GetPartID (elements part) (int j)) (\<lambda>pid.
          bindE (AddElement (elements R) (int j + 1) pid ej_new) (\<lambda>es.
          Inr (node_remap, R\<lparr>elements := es\<rparr>)))))))"

definition Renumber_Nodes :: "('d::zero) FiniteElementObject \<Rightarrow> error + 'd FiniteElementObject" where
  "Renumber_Nodes part =
     (let node_remap = Map.empty(0 \<mapsto> 0);
          R = empty_FiniteElementObject
                \<lparr>nodes := \<lparr>nids = replicate (length (nids (nodes part))) 0,
                           x = replicate (length (x (nodes part))) 0,
                           y = replicate (length (y (nodes part))) 0,
                           z = replicate (length (z (nodes part))) 0\<rparr>\<rparr>
      in bindE (for_loop [0..<length (nids (nodes part))] (renumber_node part) (node_remap, R))
           (\<lambda>s. bindE (for_loop [0..<length (eids (elements part))] (renumber_element part) s)
                  (\<lambda>s. Inr (snd s))))"

subsection \<open>The block parser \<^verbatim>\<open>KeyFile\<close>\<close>

text \<open>
  \<^verbatim>\<open>boost::lexical_cast\<close> is a library function: the parser is given the conversions it
  uses. \<open>cast_int\<close> is \<^verbatim>\<open>boost::lexical_cast<int>\<close> and \<open>cast_double\<close> is
  \<^verbatim>\<open>boost::lexical_cast<double>\<close> (\<open>None\<close> when they throw); \<open>double_to_int\<close> is the
  implicit conversion of \<^verbatim>\<open>nids[i] = boost::lexical_cast<double>(S.symbol)\<close>.
\<close>

record 'd lexical_cast =
  cast_int :: "string \<Rightarrow> int option"
  cast_double :: "string \<Rightarrow> 'd option"
  double_to_int :: "'d \<Rightarrow> int"

text \<open>
  The members of \<^verbatim>\<open>KeyFile\<close> that the parser works on. \<^verbatim>\<open>Parse\<close> makes a new lexer at its
  start and frees it at its end (\<^verbatim>\<open>lexer.reset()\<close>); nothing reads the pointer in
  between two \<^verbatim>\<open>Parse\<close>s, and the field keeps the last lexer here.
\<close>

record 'd KeyFile =
  lexer :: KeyFileLexer
  obj :: "'d FiniteElementObject"
  part_names :: "int \<rightharpoonup> string"
  parts :: "int \<rightharpoonup> Elements"

text \<open>The default constructor \<^verbatim>\<open>KeyFile()\<close>.\<close>

definition new_KeyFile :: "'d KeyFile" where
  "new_KeyFile =
     \<lparr>lexer = new_KeyFileLexer [], obj = empty_FiniteElementObject,
      part_names = Map.empty, parts = Map.empty\<rparr>"

text \<open>
  What a method of \<^verbatim>\<open>KeyFile\<close> does: it returns, or it throws, in both cases with the
  object as the method leaves it, or its loops have not ended within the rounds allowed.
\<close>

datatype 'd outcome = Normal "'d KeyFile" | Thrown error "'d KeyFile" | Diverges

text \<open>\<^verbatim>\<open>S = lexer->NextSymbol()\<close>\<close>

definition next_symbol :: "'d KeyFile \<Rightarrow> LexerSymbol \<times> 'd KeyFile" where
  "next_symbol kf = (case NextSymbol (lexer kf) of (S, L) \<Rightarrow> (S, kf\<lparr>lexer := L\<rparr>))"

definition is_separator :: "LexerSymbol \<Rightarrow> bool" where
  "is_separator S = (type S = WHITESPACE \<or> type S = COMMA)"

definition malformed :: "'d KeyFile \<Rightarrow> 'd outcome" where
  "malformed kf = Thrown (SyntaxError (current_line (lexer kf))) kf"

text \<open>
  \<^verbatim>\<open>while ((S = lexer->NextSymbol()).type != LexerSymbol::NEWLINE) {}\<close>, at most \<open>n\<close> rounds.
\<close>

fun skip_to_newline :: "nat \<Rightarrow> 'd KeyFile \<Rightarrow> 'd KeyFile option" where
  "skip_to_newline 0 kf = None"
| "skip_to_newline (Suc n) kf =
     (case next_symbol kf of (S, kf) \<Rightarrow>
        if type S \<noteq> NEWLINE then skip_to_newline n kf else Some kf)"

definition AcceptNode :: "nat \<Rightarrow> 'd lexical_cast \<Rightarrow> 'd KeyFile \<Rightarrow> 'd outcome" where
  "AcceptNode fuel lc kf =
     (case cast_int lc (symbol (currentSymbol (lexer kf))) of
        None \<Rightarrow> Thrown bad_lexical_cast kf
      | Some nid \<Rightarrow>
     (case next_symbol kf of (S, kf) \<Rightarrow>
      if \<not> is_separator S then malformed kf else
     (case next_symbol kf of (S, kf) \<Rightarrow>
     (case cast_double lc (symbol S) of None \<Rightarrow> Thrown bad_lexical_cast kf | Some x1 \<Rightarrow>
     (case next_symbol kf of (S, kf) \<Rightarrow>
      if \<not> is_separator S then malformed kf else
     (case next_symbol kf of (S, kf) \<Rightarrow>
     (case cast_double lc (symbol S) of None \<Rightarrow> Thrown bad_lexical_cast kf | Some y1 \<Rightarrow>
     (case next_symbol kf of (S, kf) \<Rightarrow>
      if \<not> is_separator S then malformed kf else
     (case next_symbol kf of (S, kf) \<Rightarrow>
     (case cast_double lc (symbol S) of None \<Rightarrow> Thrown bad_lexical_cast kf | Some z1 \<Rightarrow>
     (case skip_to_newline fuel kf of None \<Rightarrow> Diverges | Some kf \<Rightarrow>
      \<comment> \<open>Now add the node\<close>
      (let ns = AddNode (nodes (obj kf)) nid (x1, y1, z1)
       in Normal (kf\<lparr>obj := (obj kf)\<lparr>nodes := ns,
            node_index := (node_index (obj kf))(nid \<mapsto> int (length (nids ns)) - 1)\<rparr>\<rparr>)))))))))))))"

text \<open>
  The loop \<^verbatim>\<open>for (int i = 0; i < 8; ++i)\<close> of \<^verbatim>\<open>AcceptElement\<close>, over the positions given; the
  state is the array \<^verbatim>\<open>nids\<close> and the \<^verbatim>\<open>KeyFile\<close>. A throw leaves with the error instead
  of the array.
\<close>

fun read_nids ::
  "nat list \<Rightarrow> 'd lexical_cast \<Rightarrow> int list \<Rightarrow> 'd KeyFile \<Rightarrow> (error + int list) \<times> 'd KeyFile" where
  "read_nids [] lc a kf = (Inr a, kf)"
| "read_nids (i # js) lc a kf =
     (case next_symbol kf of (S, kf) \<Rightarrow>
      if \<not> is_separator S then (Inl (SyntaxError (current_line (lexer kf))), kf) else
     (case next_symbol kf of (S, kf) \<Rightarrow>
      if type S \<noteq> NUMBER then (Inl (SyntaxError (current_line (lexer kf))), kf) else
     (case cast_double lc (symbol S) of None \<Rightarrow> (Inl bad_lexical_cast, kf)
      | Some d \<Rightarrow> read_nids js lc (a[i := double_to_int lc d]) kf)))"

text \<open>
  \<^verbatim>\<open>parts[pid]\<close> on the \<^verbatim>\<open>std::map<int, Elements>\<close>: an absent part is inserted, empty.
\<close>

definition parts_subscript :: "(int \<rightharpoonup> Elements) \<Rightarrow> int \<Rightarrow> Elements \<times> (int \<rightharpoonup> Elements)" where
  "parts_subscript m k =
     (case m k of None \<Rightarrow> (empty_Elements, m(k \<mapsto> empty_Elements)) | Some es \<Rightarrow> (es, m))"

definition AcceptElement :: "'d lexical_cast \<Rightarrow> 'd KeyFile \<Rightarrow> 'd outcome" where
  "AcceptElement lc kf =
     (case cast_int lc (symbol (currentSymbol (lexer kf))) of
        None \<Rightarrow> Thrown bad_lexical_cast kf
      | Some eid \<Rightarrow>
     (case next_symbol kf of (S, kf) \<Rightarrow>
      if \<not> is_separator S then malformed kf else
     (case next_symbol kf of (S, kf) \<Rightarrow>
      if type S \<noteq> NUMBER then malformed kf else
     (case cast_int lc (symbol S) of None \<Rightarrow> Thrown bad_lexical_cast kf | Some pid \<Rightarrow>
     (case read_nids [0..<8] lc (replicate 8 0) kf of
        (Inl e, kf) \<Rightarrow> Thrown e kf
      | (Inr a, kf) \<Rightarrow>
      \<comment> \<open>Now add the element\<close>
      (let e = (a ! 0, a ! 1, a ! 2, a ! 3, a ! 4, a ! 5, a ! 6, a ! 7) in
       case AddElement (elements (obj kf)) eid pid e of
         Inl err \<Rightarrow> Thrown err kf
       | Inr es \<Rightarrow>
        (let kf = kf\<lparr>obj := (obj kf)\<lparr>elements := es,
                   element_index := (element_index (obj kf))(eid \<mapsto> int (length (eids es)) - 1)\<rparr>\<rparr>;
             (pe, m) = parts_subscript (parts kf) pid;
             kf = kf\<lparr>parts := m\<rparr>
         in case AddElement pe eid pid e of
              Inl err \<Rightarrow> Thrown err kf
            | Inr pe \<Rightarrow> Normal (kf\<lparr>parts := (parts kf)(pid \<mapsto> pe)\<rparr>))))))))"

text \<open>The two loops of \<^verbatim>\<open>AcceptPart\<close>, at most \<open>n\<close> rounds each.\<close>

fun read_part_name :: "nat \<Rightarrow> string \<Rightarrow> 'd KeyFile \<Rightarrow> (string \<times> 'd KeyFile) option" where
  "read_part_name 0 part_name kf = None"
| "read_part_name (Suc n) part_name kf =
     (case next_symbol kf of (S, kf) \<Rightarrow>
        if type S \<noteq> NEWLINE then read_part_name n (part_name @ symbol S) kf
        else Some (part_name, kf))"

fun skip_to_number :: "nat \<Rightarrow> 'd KeyFile \<Rightarrow> (LexerSymbol \<times> 'd KeyFile) option" where
  "skip_to_number 0 kf = None"
| "skip_to_number (Suc n) kf =
     (case next_symbol kf of (S, kf) \<Rightarrow>
        if type S \<noteq> NUMBER then skip_to_number n kf else Some (S, kf))"

definition AcceptPart :: "nat \<Rightarrow> 'd lexical_cast \<Rightarrow> 'd KeyFile \<Rightarrow> 'd outcome" where
  "AcceptPart fuel lc kf =
     (case read_part_name fuel (symbol (currentSymbol (lexer kf))) kf of
        None \<Rightarrow> Diverges
      | Some (part_name, kf) \<Rightarrow>
     \<comment> \<open>the next number that we see is the part ID\<close>
     (case skip_to_number fuel kf of
        None \<Rightarrow> Diverges
      | Some (S, kf) \<Rightarrow>
     (case cast_int lc (symbol S) of
        None \<Rightarrow> Thrown bad_lexical_cast kf
      | Some pid \<Rightarrow> Normal (kf\<lparr>part_names := (part_names kf)(pid \<mapsto> part_name)\<rparr>))))"

text \<open>
  \<^verbatim>\<open>!strcmpi(S.symbol.c_str(), kw)\<close>: equality up to the case of ASCII letters, on the
  symbol up to its first NUL character.
\<close>

definition tolower :: "char \<Rightarrow> char" where
  "tolower c =
     (case map_of (zip ''ABCDEFGHIJKLMNOPQRSTUVWXYZ'' ''abcdefghijklmnopqrstuvwxyz'') c of
        None \<Rightarrow> c | Some l \<Rightarrow> l)"

definition c_str :: "string \<Rightarrow> string" where
  "c_str s = takeWhile (\<lambda>c. c \<noteq> CHR 0x00) s"

definition is_keyword :: "LexerSymbol \<Rightarrow> string \<Rightarrow> bool" where
  "is_keyword S kw = (type S = WORD \<and> map tolower (c_str (symbol S)) = map tolower kw)"

text \<open>
  The \<^verbatim>\<open>switch (state)\<close> of \<^verbatim>\<open>Parse\<close> on the symbol \<open>S\<close>: the next block state and what the
  \<^verbatim>\<open>Accept\<close> method called, if any, does.
\<close>

definition parse_switch ::
  "nat \<Rightarrow> 'd lexical_cast \<Rightarrow> int \<Rightarrow> LexerSymbol \<Rightarrow> 'd KeyFile \<Rightarrow> int \<times> 'd outcome" where
  "parse_switch fuel lc st S kf =
     (if st = 0 then (if type S = ASTERISK then 1 else 0, Normal kf)
      else if st = 1 then
        (if is_keyword S ''NODE'' then 2
         else if is_keyword S ''ELEMENT_SOLID'' then 3
         else if is_keyword S ''ELEMENT_SHELL'' then 3
         else if is_keyword S ''ELEMENT_BEAM'' then 3
         else if is_keyword S ''PART'' then 4
         else if is_keyword S ''PART_INERTIA'' then 4
         else 0, Normal kf)
      else if st = 2 then
        (if type S = WHITESPACE then (st, Normal kf)
         else if type S = NUMBER then (st, AcceptNode fuel lc kf)
         else if type S = NEWLINE then (st, Normal kf)
         else if type S = ASTERISK then (1, Normal kf)
         else (0, Normal kf))
      else if st = 3 then
        (if type S = WHITESPACE then (st, Normal kf)
         else if type S = NUMBER then (st, AcceptElement lc kf)
         else if type S = NEWLINE then (st, Normal kf)
         else if type S = ASTERISK then (1, Normal kf)
         else (0, Normal kf))
      else if st = 4 then
        (if type S = WHITESPACE then (st, Normal kf)
         else if type S = NEWLINE then (st, Normal kf)
         else if type S = ASTERISK then (1, Normal kf)
         else if type S = WORD then (st, AcceptPart fuel lc kf)
         else (0, Normal kf))
      else (st, Normal kf))"

text \<open>
  \<^verbatim>\<open>while (S.type != LexerSymbol::END_OF_FILE) { switch (state) ...; S = lexer->NextSymbol(); }\<close>,
  at most \<open>n\<close> rounds; \<open>fuel\<close> bounds the loops of the \<^verbatim>\<open>Accept\<close> methods.
\<close>

fun parse_loop ::
  "nat \<Rightarrow> nat \<Rightarrow> 'd lexical_cast \<Rightarrow> int \<Rightarrow> LexerSymbol \<Rightarrow> 'd KeyFile \<Rightarrow> 'd outcome" where
  "parse_loop 0 fuel lc st S kf = Diverges"
| "parse_loop (Suc n) fuel lc st S kf =
     (if type S \<noteq> END_OF_FILE then
        (case parse_switch fuel lc st S kf of
           (st, Normal kf) \<Rightarrow>
             (case next_symbol kf of (S, kf) \<Rightarrow> parse_loop n fuel lc st S kf)
         | (st, Thrown e kf) \<Rightarrow> Thrown e kf
         | (st, Diverges) \<Rightarrow> Diverges)
      else Normal kf)"

text \<open>
  The state of that loop (block state, pending symbol, \<^verbatim>\<open>KeyFile\<close>) when it has made \<open>i\<close>
  full rounds; \<open>None\<close> when it has ended, thrown or not come back from a method before.
\<close>

fun parse_rounds ::
  "nat \<Rightarrow> nat \<Rightarrow> 'd lexical_cast \<Rightarrow> int \<Rightarrow> LexerSymbol \<Rightarrow> 'd KeyFile
     \<Rightarrow> (int \<times> LexerSymbol \<times> 'd KeyFile) option" where
  "parse_rounds 0 fuel lc st S kf = Some (st, S, kf)"
| "parse_rounds (Suc i) fuel lc st S kf =
     (if type S \<noteq> END_OF_FILE then
        (case parse_switch fuel lc st S kf of
           (st, Normal kf) \<Rightarrow>
             (case next_symbol kf of (S, kf) \<Rightarrow> parse_rounds i fuel lc st S kf)
         | (st, Thrown e kf) \<Rightarrow> None
         | (st, Diverges) \<Rightarrow> None)
      else None)"

text \<open>
  The loop that prints \<^verbatim>\<open>part_names[pid]\<close> for every key of \<^verbatim>\<open>parts\<close>: the subscript inserts
  an empty name for a part that has none.
\<close>

definition name_parts :: "'d KeyFile \<Rightarrow> 'd KeyFile" where
  "name_parts kf =
     kf\<lparr>part_names := (\<lambda>pid. case parts kf pid of
                                None \<Rightarrow> part_names kf pid
                              | Some es \<Rightarrow> (case part_names kf pid of
                                             None \<Rightarrow> Some [] | Some nm \<Rightarrow> Some nm))\<rparr>"

text \<open>
  \<^verbatim>\<open>KeyFile::Parse\<close> on a file with the content \<open>input\<close> (opening the file is outside the
  model), with at most \<open>fuel\<close> rounds of each loop.
\<close>

definition Parse :: "nat \<Rightarrow> 'd lexical_cast \<Rightarrow> 'd KeyFile \<Rightarrow> string \<Rightarrow> 'd outcome" where
  "Parse fuel lc kf input =
     (case next_symbol (kf\<lparr>lexer := new_KeyFileLexer input\<rparr>) of (S, kf) \<Rightarrow>
       (case parse_loop fuel fuel lc 0 S kf of
          Normal kf \<Rightarrow> Normal (name_parts kf)
        | Thrown e kf \<Rightarrow> Thrown e kf
        | Diverges \<Rightarrow> Diverges))"

subsection \<open>Notions used in the statements\<close>

text \<open>
  \<open>extends D D'\<close>: every vector of the document \<open>D\<close> is a prefix of the same vector of \<open>D'\<close>,
  that is, \<open>D'\<close> is \<open>D\<close> with records appended.
\<close>

definition extends :: "'d FiniteElementObject \<Rightarrow> 'd FiniteElementObject \<Rightarrow> bool" where
  "extends D D' =
     (prefix (nids (nodes D)) (nids (nodes D')) \<and> prefix (x (nodes D)) (x (nodes D'))
      \<and> prefix (y (nodes D)) (y (nodes D')) \<and> prefix (z (nodes D)) (z (nodes D'))
      \<and> prefix (eids (elements D)) (eids (elements D'))
      \<and> prefix (pids (elements D)) (pids (elements D'))
      \<and> prefix (n1 (elements D)) (n1 (elements D')) \<and> prefix (n2 (elements D)) (n2 (elements D'))
      \<and> prefix (n3 (elements D)) (n3 (elements D')) \<and> prefix (n4 (elements D)) (n4 (elements D'))
      \<and> prefix (n5 (elements D)) (n5 (elements D')) \<and> prefix (n6 (elements D)) (n6 (elements D'))
      \<and> prefix (n7 (elements D)) (n7 (elements D')) \<and> prefix (n8 (elements D)) (n8 (elements D')))"

text \<open>
  Conversions for the examples: what \<^verbatim>\<open>boost::lexical_cast\<close> returns on the few tokens that
  occur in them. Their coordinates are whole numbers and are held as integers.
\<close>

definition example_cast :: "int lexical_cast" where
  "example_cast =
     \<lparr>cast_int = map_of [(''0'', 0), (''1'', 1), (''2'', 2), (''5'', 5), (''10'', 10)],
      cast_double = map_of [(''0'', 0), (''0.0'', 0), (''1'', 1), (''1.0'', 1), (''2'', 2)],
      double_to_int = (\<lambda>d. d)\<rparr>"

text \<open>
  The value that \<^verbatim>\<open>m[k]\<close> reads: the stored one, or 0 for a key that is absent (which the
  access then inserts with that value).
\<close>

definition lookup0 :: "(int \<rightharpoonup> int) \<Rightarrow> int \<Rightarrow> int" where
  "lookup0 m k = (case m k of None \<Rightarrow> 0 | Some v \<Rightarrow> v)"

text \<open>
  \<open>consistent D\<close>: the vectors of \<^verbatim>\<open>D.nodes\<close> have one length and the vectors of
  \<^verbatim>\<open>D.elements\<close> have one length, as \<^verbatim>\<open>AddNode\<close>, \<^verbatim>\<open>AddElement\<close>, \<^verbatim>\<open>IsolatePart\<close> and
  \<^verbatim>\<open>Renumber_Nodes\<close> build them: position \<open>i\<close> of each vector is one node, or one element.
\<close>

definition consistent :: "'d FiniteElementObject \<Rightarrow> bool" where
  "consistent D =
     (length (x (nodes D)) = length (nids (nodes D))
      \<and> length (y (nodes D)) = length (nids (nodes D))
      \<and> length (z (nodes D)) = length (nids (nodes D))
      \<and> length (pids (elements D)) = length (eids (elements D))
      \<and> length (n1 (elements D)) = length (eids (elements D))
      \<and> length (n2 (elements D)) = length (eids (elements D))
      \<and> length (n3 (elements D)) = length (eids (elements D))
      \<and> length (n4 (elements D)) = length (eids (elements D))
      \<and> length (n5 (elements D)) = length (eids (elements D))
      \<and> length (n6 (elements D)) = length (eids (elements D))
      \<and> length (n7 (elements D)) = length (eids (elements D))
      \<and> length (n8 (elements D)) = length (eids (elements D)))"

text \<open>The eight connectivity vectors, and the eight slots of the element at a position.\<close>

definition slots :: "Elements \<Rightarrow> int list list" where
  "slots es = [n1 es, n2 es, n3 es, n4 es, n5 es, n6 es, n7 es, n8 es]"

definition row :: "Elements \<Rightarrow> nat \<Rightarrow> int list" where
  "row es i = [n1 es ! i, n2 es ! i, n3 es ! i, n4 es ! i, n5 es ! i, n6 es ! i, n7 es ! i, n8 es ! i]"

text \<open>
  A node id is present in \<open>D\<close> when \<^verbatim>\<open>D.node_index\<close> maps it to a position of the node list
  that holds this id; \<open>D\<close> has referential integrity when every nonzero connectivity slot is
  such an id.
\<close>

definition node_present :: "'d FiniteElementObject \<Rightarrow> int \<Rightarrow> bool" where
  "node_present D v =
     (case node_index D v of
        None \<Rightarrow> False
      | Some k \<Rightarrow> 0 \<le> k \<and> k < int (length (nids (nodes D))) \<and> nids (nodes D) ! nat k = v)"

definition referential_integrity :: "'d FiniteElementObject \<Rightarrow> bool" where
  "referential_integrity D =
     (\<forall>v\<in>set (concat (slots (elements D))). v = 0 \<or> node_present D v)"

text \<open>
  The position that \<^verbatim>\<open>objects.node_index[v]\<close> yields in \<^verbatim>\<open>IsolatePart\<close> (0 for an id that the
  index does not hold), and the documents in which every such position, for the nonzero
  slots, is one of the node list.
\<close>

definition position_of :: "'d FiniteElementObject \<Rightarrow> int \<Rightarrow> int" where
  "position_of D v = lookup0 (node_index D) v"

definition lookups_in_range :: "'d FiniteElementObject \<Rightarrow> bool" where
  "lookups_in_range D =
     (\<forall>v\<in>set (concat (slots (elements D))).
        v = 0 \<or> (0 \<le> position_of D v \<and> position_of D v < int (length (nids (nodes D)))))"

text \<open>
  The elements at the positions \<open>js\<close>, in this order; the positions of the elements of a
  part, ascending.
\<close>

definition select_rows :: "Elements \<Rightarrow> nat list \<Rightarrow> Elements" where
  "select_rows es js =
     \<lparr>eids = map ((!) (eids es)) js, pids = map ((!) (pids es)) js,
      n1 = map ((!) (n1 es)) js, n2 = map ((!) (n2 es)) js,
      n3 = map ((!) (n3 es)) js, n4 = map ((!) (n4 es)) js,
      n5 = map ((!) (n5 es)) js, n6 = map ((!) (n6 es)) js,
      n7 = map ((!) (n7 es)) js, n8 = map ((!) (n8 es)) js\<rparr>"

definition part_rows :: "'d FiniteElementObject \<Rightarrow> int \<Rightarrow> nat list" where
  "part_rows D p = filter (\<lambda>i. pids (elements D) ! i = p) [0..<length (eids (elements D))]"

text \<open>
  Node ids in the order of their first reference: each id of the list that is nonzero and
  not yet collected is appended once.
\<close>

fun collect :: "int list \<Rightarrow> int list \<Rightarrow> int list" where
  "collect acc [] = acc"
| "collect acc (v # vs) = collect (if v \<in> set acc \<or> v = 0 then acc else acc @ [v]) vs"

text \<open>
  \<open>nodes_copied D P\<close>: the index of \<open>P\<close> holds exactly the node ids of \<open>P\<close>, and each node of
  \<open>P\<close> has the coordinates that \<open>D\<close> stores at the position looked up for its id.
\<close>

definition nodes_copied :: "'d FiniteElementObject \<Rightarrow> 'd FiniteElementObject \<Rightarrow> bool" where
  "nodes_copied D P =
     (dom (node_index P) = set (nids (nodes P))
      \<and> x (nodes P) = map (\<lambda>v. x (nodes D) ! nat (position_of D v)) (nids (nodes P))
      \<and> y (nodes P) = map (\<lambda>v. y (nodes D) ! nat (position_of D v)) (nids (nodes P))
      \<and> z (nodes P) = map (\<lambda>v. z (nodes D) ! nat (position_of D v)) (nids (nodes P)))"

text \<open>The block of \<open>copy_node\<close> for each value of a list in turn.\<close>

fun copy_all ::
  "int list \<Rightarrow> 'd FiniteElementObject \<times> 'd FiniteElementObject
     \<Rightarrow> error + 'd FiniteElementObject \<times> 'd FiniteElementObject" where
  "copy_all [] s = Inr s"
| "copy_all (n # ns) s = bindE (copy_node n s) (copy_all ns)"

text \<open>
  The table \<^verbatim>\<open>node_remap\<close> when the first loop of \<^verbatim>\<open>Renumber_Nodes\<close> has passed the node
  ids \<open>vs\<close>, the first of them at position \<open>j\<close>, starting from the table \<open>m\<close>.
\<close>

fun number_nodes :: "int list \<Rightarrow> nat \<Rightarrow> (int \<rightharpoonup> int) \<Rightarrow> (int \<rightharpoonup> int)" where
  "number_nodes [] j m = m"
| "number_nodes (v # vs) j m = number_nodes vs (Suc j) (m(v \<mapsto> int j + 1))"

text \<open>The ids 1, ..., n, and the index that maps each of them to its position.\<close>

definition dense_ids :: "nat \<Rightarrow> int list" where
  "dense_ids n = map (\<lambda>j. int j + 1) [0..<n]"

definition dense_index :: "nat \<Rightarrow> (int \<rightharpoonup> int)" where
  "dense_index n = (\<lambda>k. if 1 \<le> k \<and> k \<le> int n then Some (k - 1) else None)"

text \<open>The first \<open>k\<close> positions exist in every coordinate, respectively element, vector.\<close>

definition nodes_upto :: "'d FiniteElementObject \<Rightarrow> nat \<Rightarrow> bool" where
  "nodes_upto P k =
     (k \<le> length (x (nodes P)) \<and> k \<le> length (y (nodes P)) \<and> k \<le> length (z (nodes P)))"

definition elements_upto :: "'d FiniteElementObject \<Rightarrow> nat \<Rightarrow> bool" where
  "elements_upto P k =
     (k \<le> length (pids (elements P)) \<and> k \<le> length (n1 (elements P))
      \<and> k \<le> length (n2 (elements P)) \<and> k \<le> length (n3 (elements P))
      \<and> k \<le> length (n4 (elements P)) \<and> k \<le> length (n5 (elements P))
      \<and> k \<le> length (n6 (elements P)) \<and> k \<le> length (n7 (elements P))
      \<and> k \<le> length (n8 (elements P)))"

text \<open>The nodes of \<^verbatim>\<open>R\<close> when the first loop of \<^verbatim>\<open>Renumber_Nodes\<close> has passed \<open>k\<close> nodes.\<close>

definition renumbered_nodes :: "('d::zero) FiniteElementObject \<Rightarrow> nat \<Rightarrow> 'd Nodes" where
  "renumbered_nodes P k =
     \<lparr>nids = dense_ids k @ replicate (length (nids (nodes P)) - k) 0,
      x = take k (x (nodes P)) @ replicate (length (x (nodes P)) - k) 0,
      y = take k (y (nodes P)) @ replicate (length (y (nodes P)) - k) 0,
      z = take k (z (nodes P)) @ replicate (length (z (nodes P)) - k) 0\<rparr>"

text \<open>The elements of \<^verbatim>\<open>R\<close> when the second loop has passed \<open>k\<close> elements, for the table \<open>m\<close>.\<close>

definition renumbered_elements :: "(int \<rightharpoonup> int) \<Rightarrow> Elements \<Rightarrow> nat \<Rightarrow> Elements" where
  "renumbered_elements m es k =
     \<lparr>eids = dense_ids k, pids = take k (pids es),
      n1 = map (lookup0 m) (take k (n1 es)), n2 = map (lookup0 m) (take k (n2 es)),
      n3 = map (lookup0 m) (take k (n3 es)), n4 = map (lookup0 m) (take k (n4 es)),
      n5 = map (lookup0 m) (take k (n5 es)), n6 = map (lookup0 m) (take k (n6 es)),
      n7 = map (lookup0 m) (take k (n7 es)), n8 = map (lookup0 m) (take k (n8 es))\<rparr>"

definition renumbered :: "('d::zero) FiniteElementObject \<Rightarrow> 'd FiniteElementObject" where
  "renumbered P =
     \<lparr>nodes = renumbered_nodes P (length (nids (nodes P))),
      elements = renumbered_elements (number_nodes (nids (nodes P)) 0 [0 \<mapsto> 0]) (elements P)
                   (length (eids (elements P))),
      element_index = Map.empty,
      node_index = dense_index (length (nids (nodes P)))\<rparr>"

text \<open>
  What the renumbering of a connectivity vector \<open>old\<close> into \<open>new\<close> has to satisfy for the
  node ids \<open>ids\<close>: 0 stays 0, nothing else becomes 0, and the id at position \<open>j\<close> becomes
  \<open>j + 1\<close>.
\<close>

definition slot_remapped :: "int list \<Rightarrow> int list \<Rightarrow> int list \<Rightarrow> bool" where
  "slot_remapped ids old new =
     (length new = length old
      \<and> (\<forall>i<length old.
            (old ! i = 0 \<longrightarrow> new ! i = 0) \<and> (new ! i = 0 \<longrightarrow> old ! i = 0)
            \<and> (\<forall>j<length ids. old ! i = ids ! j \<longrightarrow> new ! i = int j + 1)))"

text \<open>A slot whose value is not among the node ids \<open>ids\<close> becomes 0.\<close>

definition absent_to_zero :: "int list \<Rightarrow> int list \<Rightarrow> int list \<Rightarrow> bool" where
  "absent_to_zero ids old new =
     (length new = length old \<and> (\<forall>i<length old. old ! i \<notin> set ids \<longrightarrow> new ! i = 0))"

text \<open>
  Two small documents for the examples: one with referential integrity, and one whose
  element 10 references the node id 7, which the node table does not hold.
\<close>

definition example_document :: "int FiniteElementObject" where
  "example_document =
     \<lparr>nodes = \<lparr>nids = [7, 3], x = [70, 30], y = [71, 31], z = [72, 32]\<rparr>,
      elements = \<lparr>eids = [10, 11], pids = [5, 6], n1 = [3, 7], n2 = [7, 0], n3 = [0, 0],
                  n4 = [0, 0], n5 = [0, 0], n6 = [0, 0], n7 = [0, 0], n8 = [0, 0]\<rparr>,
      element_index = [10 \<mapsto> 0, 11 \<mapsto> 1],
      node_index = [7 \<mapsto> 0, 3 \<mapsto> 1]\<rparr>"

definition dangling_document :: "int FiniteElementObject" where
  "dangling_document =
     \<lparr>nodes = \<lparr>nids = [1], x = [4], y = [5], z = [6]\<rparr>,
      elements = \<lparr>eids = [10], pids = [5], n1 = [1], n2 = [7], n3 = [0],
                  n4 = [0], n5 = [0], n6 = [0], n7 = [0], n8 = [0]\<rparr>,
      element_index = [10 \<mapsto> 0],
      node_index = [1 \<mapsto> 0]\<rparr>"

section \<open>Properties\<close>

subsection \<open>The tokenizer\<close>

lemmas char_defs = peek_def EOF_char_def newline_def isdigit_def isspace_def is_blank_def
  is_number_start_def loop_cond_def

lemmas accept_defs = AcceptNumber_def AcceptWord_def AcceptWhitespace_def AcceptNewline_def
  AcceptAsterisk_def get_append_def get_while_def ignore_def IgnoreComment_def

lemmas lexer_defs = new_KeyFileLexer_def NextSymbol_def switch_line_start_def
  switch_mid_line_def default_symbol_def

lemma skip_comments_no_dollar: "peek (stream L) \<noteq> CHR ''$'' \<Longrightarrow> skip_comments L = L"
  by (subst skip_comments.simps) simp

lemma skip_comments_dollar:
  "peek (stream L) = CHR ''$'' \<Longrightarrow>
     skip_comments L = skip_comments ((IgnoreComment L)\<lparr>current_line := current_line L + 1\<rparr>)"
  by (subst skip_comments.simps) simp

lemma AcceptNumber_state: "state (snd (AcceptNumber L)) = state L"
  by (simp add: AcceptNumber_def get_append_def get_while_def ignore_def Let_def split_def)

lemma AcceptNumber_type: "type (fst (AcceptNumber L)) = NUMBER"
  by (simp add: AcceptNumber_def get_append_def get_while_def ignore_def Let_def split_def)

lemma AcceptNumber_line: "current_line (snd (AcceptNumber L)) = current_line L"
  by (simp add: AcceptNumber_def get_append_def get_while_def ignore_def Let_def split_def)

lemma NextSymbol_comma:
  assumes "state L = 0" and "peek (stream L) = CHR '',''"
  shows "NextSymbol L = (\<lparr>type = COMMA, symbol = '',''\<rparr>, L\<lparr>currentSymbol := \<lparr>type = COMMA, symbol = '',''\<rparr>\<rparr>)"
proof -
  have "skip_comments L = L"
    using assms(2) by (simp add: skip_comments_no_dollar)
  then show ?thesis
    using assms by (simp add: NextSymbol_def switch_line_start_def is_blank_def newline_def)
qed

lemma number_start_cases:
  "is_number_start c \<Longrightarrow>
     c \<noteq> CHR ''$'' \<and> c \<noteq> CHR ''*'' \<and> c \<noteq> newline \<and> \<not> is_blank c \<and> c \<noteq> CHR '',''"
  by (auto simp: is_number_start_def is_blank_def newline_def)

lemma NextSymbol_number:
  assumes "state L = 0" and "is_number_start (peek (stream L))"
  shows "NextSymbol L = (fst (AcceptNumber L), (snd (AcceptNumber L))\<lparr>currentSymbol := fst (AcceptNumber L)\<rparr>)"
proof -
  note n = number_start_cases [OF assms(2)]
  have "skip_comments L = L"
    using n by (simp add: skip_comments_no_dollar)
  then show ?thesis
    using assms n by (simp add: NextSymbol_def switch_line_start_def split_def Let_def)
qed

text \<open>
  Claim C10. In the line-start state with a pending \<^verbatim>\<open>','\<close>, \<^verbatim>\<open>NextSymbol\<close> returns Comma,
  consumes nothing and stays in the line-start state, so the following call returns Comma
  again from the same position. \<^verbatim>\<open>AcceptNumber\<close> never changes the state; hence when a
  line starts with a number that is directly followed by a comma, the Number token leaves
  the lexer in the line-start state and the next call returns that Comma without
  consuming it.
\<close>

theorem NextSymbol_comma_not_consumed:
  "(state L = 0 \<and> peek (stream L) = CHR '','' \<longrightarrow>
      NextSymbol L = (\<lparr>type = COMMA, symbol = '',''\<rparr>, L\<lparr>currentSymbol := \<lparr>type = COMMA, symbol = '',''\<rparr>\<rparr>)
      \<and> stream (snd (NextSymbol L)) = stream L
      \<and> state (snd (NextSymbol L)) = 0
      \<and> NextSymbol (snd (NextSymbol L)) = (\<lparr>type = COMMA, symbol = '',''\<rparr>, snd (NextSymbol L)))
   \<and> state (snd (AcceptNumber L)) = state L
   \<and> (state L = 0 \<and> is_number_start (peek (stream L))
        \<and> peek (stream (snd (NextSymbol L))) = CHR '','' \<longrightarrow>
      type (fst (NextSymbol L)) = NUMBER
      \<and> state (snd (NextSymbol L)) = 0
      \<and> fst (NextSymbol (snd (NextSymbol L))) = \<lparr>type = COMMA, symbol = '',''\<rparr>
      \<and> stream (snd (NextSymbol (snd (NextSymbol L)))) = stream (snd (NextSymbol L))
      \<and> state (snd (NextSymbol (snd (NextSymbol L)))) = 0)"
proof (intro conjI impI)
  assume a: "state L = 0 \<and> peek (stream L) = CHR '',''"
  let ?c = "\<lparr>type = COMMA, symbol = '',''\<rparr>"
  show 1: "NextSymbol L = (?c, L\<lparr>currentSymbol := ?c\<rparr>)"
    using a by (simp add: NextSymbol_comma)
  show "stream (snd (NextSymbol L)) = stream L" and "state (snd (NextSymbol L)) = 0"
    using a by (simp_all add: 1)
  show "NextSymbol (snd (NextSymbol L)) = (?c, snd (NextSymbol L))"
    using a by (simp add: 1 NextSymbol_comma)
next
  show "state (snd (AcceptNumber L)) = state L"
    by (rule AcceptNumber_state)
next
  assume a: "state L = 0 \<and> is_number_start (peek (stream L))
        \<and> peek (stream (snd (NextSymbol L))) = CHR '',''"
  then have 1: "NextSymbol L = (fst (AcceptNumber L), (snd (AcceptNumber L))\<lparr>currentSymbol := fst (AcceptNumber L)\<rparr>)"
    by (simp add: NextSymbol_number)
  show "type (fst (NextSymbol L)) = NUMBER"
    by (simp add: 1 AcceptNumber_type)
  show 2: "state (snd (NextSymbol L)) = 0"
    using a by (simp add: 1 AcceptNumber_state)
  have 3: "NextSymbol (snd (NextSymbol L)) =
      (\<lparr>type = COMMA, symbol = '',''\<rparr>, (snd (NextSymbol L))\<lparr>currentSymbol := \<lparr>type = COMMA, symbol = '',''\<rparr>\<rparr>)"
    using a 2 by (intro NextSymbol_comma) simp_all
  show "fst (NextSymbol (snd (NextSymbol L))) = \<lparr>type = COMMA, symbol = '',''\<rparr>"
    and "stream (snd (NextSymbol (snd (NextSymbol L)))) = stream (snd (NextSymbol L))"
    and "state (snd (NextSymbol (snd (NextSymbol L)))) = 0"
    using 2 by (simp_all add: 3)
qed

lemma NextSymbol_1comma:
  "NextSymbol (new_KeyFileLexer ''1,2.5,-3.2E-01\<newline>'') =
     (\<lparr>type = NUMBER, symbol = ''1''\<rparr>,
      \<lparr>stream = '',2.5,-3.2E-01\<newline>'', state = 0,
       currentSymbol = \<lparr>type = NUMBER, symbol = ''1''\<rparr>, current_line = 1\<rparr>)"
  by (simp add: NextSymbol_number new_KeyFileLexer_def char_defs accept_defs)

lemma symbols_comma:
  assumes "state L = 0" and "peek (stream L) = CHR '',''"
  shows "fst (symbols n L) = replicate n \<lparr>type = COMMA, symbol = '',''\<rparr>
    \<and> stream (snd (symbols n L)) = stream L \<and> state (snd (symbols n L)) = 0
    \<and> current_line (snd (symbols n L)) = current_line L"
  using assms
proof (induction n arbitrary: L)
  case 0
  then show ?case by simp
next
  case (Suc n)
  let ?L = "L\<lparr>currentSymbol := \<lparr>type = COMMA, symbol = '',''\<rparr>\<rparr>"
  have "state ?L = 0" and "peek (stream ?L) = CHR '',''"
    using Suc.prems by simp_all
  from Suc.IH [OF this] show ?case
    using Suc.prems by (simp add: NextSymbol_comma split_def)
qed

text \<open>
  Claim C3 (the code does otherwise). Repeated calls of \<^verbatim>\<open>NextSymbol\<close> on
  \<^verbatim>\<open>"1,2.5,-3.2E-01\n"\<close>, from the line-start state, return Number("1") and then Comma at
  every further call: the comma is never consumed, so the stream stays at
  \<^verbatim>\<open>",2.5,-3.2E-01\n"\<close> and neither Number("2.5") nor Newline is ever reached.
\<close>

theorem tokenize_comma_line_repeats_comma:
  "fst (symbols (Suc n) (new_KeyFileLexer ''1,2.5,-3.2E-01\<newline>'')) =
     \<lparr>type = NUMBER, symbol = ''1''\<rparr> # replicate n \<lparr>type = COMMA, symbol = '',''\<rparr>
   \<and> stream (snd (symbols (Suc n) (new_KeyFileLexer ''1,2.5,-3.2E-01\<newline>''))) = '',2.5,-3.2E-01\<newline>''"
proof -
  let ?L = "\<lparr>stream = '',2.5,-3.2E-01\<newline>'', state = 0,
       currentSymbol = \<lparr>type = NUMBER, symbol = ''1''\<rparr>, current_line = 1\<rparr>"
  have "state ?L = 0" and "peek (stream ?L) = CHR '',''"
    by (simp_all add: peek_def)
  from symbols_comma [OF this, of n] show ?thesis
    by (simp add: NextSymbol_1comma split_def)
qed

text \<open>
  Claim C9 (the code does otherwise). On \<^verbatim>\<open>"1-2 3"\<close> the tokenizer returns the Number token
  \<^verbatim>\<open>"1-2"\<close>: the sign is taken into the token although no exponent marker stands before it.
\<close>

theorem AcceptNumber_sign_without_exponent:
  "NextSymbol (new_KeyFileLexer ''1-2 3'') =
     (\<lparr>type = NUMBER, symbol = ''1-2''\<rparr>,
      \<lparr>stream = '' 3'', state = 0,
       currentSymbol = \<lparr>type = NUMBER, symbol = ''1-2''\<rparr>, current_line = 1\<rparr>)"
  by (simp add: NextSymbol_number new_KeyFileLexer_def char_defs accept_defs)

theorem NextSymbol_comma_not_consumed_witness:
  "NextSymbol (new_KeyFileLexer '',2'') = (\<lparr>type = COMMA, symbol = '',''\<rparr>, (new_KeyFileLexer '',2'')\<lparr>currentSymbol := \<lparr>type = COMMA, symbol = '',''\<rparr>\<rparr>)
  \<and> fst (NextSymbol (snd (NextSymbol (new_KeyFileLexer ''1,2'')))) = \<lparr>type = COMMA, symbol = '',''\<rparr>"
proof -
  have a: "state (new_KeyFileLexer '',2'') = 0 \<and> peek (stream (new_KeyFileLexer '',2'')) = CHR '',''"
    by (simp add: new_KeyFileLexer_def peek_def)
  have n: "NextSymbol (new_KeyFileLexer ''1,2'') = (\<lparr>type = NUMBER, symbol = ''1''\<rparr>,
      \<lparr>stream = '',2'', state = 0, currentSymbol = \<lparr>type = NUMBER, symbol = ''1''\<rparr>, current_line = 1\<rparr>)"
    by (simp add: NextSymbol_number new_KeyFileLexer_def char_defs accept_defs)
  have b: "state (new_KeyFileLexer ''1,2'') = 0 \<and> is_number_start (peek (stream (new_KeyFileLexer ''1,2'')))
      \<and> peek (stream (snd (NextSymbol (new_KeyFileLexer ''1,2'')))) = CHR '',''"
    by (simp add: n) (simp add: new_KeyFileLexer_def peek_def is_number_start_def)
  show ?thesis
    using NextSymbol_comma_not_consumed [of "new_KeyFileLexer '',2''"]
      NextSymbol_comma_not_consumed [of "new_KeyFileLexer ''1,2''"] a b
    by blast
qed

subsection \<open>The block parser\<close>

lemma extends_refl: "extends D D"
  by (simp add: extends_def)

lemma extends_trans: "extends D D' \<Longrightarrow> extends D' D'' \<Longrightarrow> extends D D''"
  unfolding extends_def by (meson prefix_order.trans)

lemma next_symbol_obj:
  "next_symbol kf = (S, kf') \<Longrightarrow> obj kf' = obj kf \<and> parts kf' = parts kf \<and> part_names kf' = part_names kf"
  by (auto simp: next_symbol_def split: prod.splits)

lemma skip_to_newline_obj:
  "skip_to_newline n kf = Some kf' \<Longrightarrow> obj kf' = obj kf \<and> parts kf' = parts kf \<and> part_names kf' = part_names kf"
proof (induction n arbitrary: kf)
  case 0
  then show ?case by simp
next
  case (Suc n)
  obtain S k where k: "next_symbol kf = (S, k)" by (cases "next_symbol kf")
  show ?case
    using Suc.prems Suc.IH [of k] next_symbol_obj [OF k]
    by (auto simp: k split: if_splits)
qed

lemma read_part_name_obj:
  "read_part_name n nm kf = Some (nm', kf') \<Longrightarrow> obj kf' = obj kf \<and> parts kf' = parts kf"
proof (induction n arbitrary: kf nm)
  case 0
  then show ?case by simp
next
  case (Suc n)
  obtain S k where k: "next_symbol kf = (S, k)" by (cases "next_symbol kf")
  show ?case
    using Suc.prems Suc.IH [of "nm @ symbol S" k] next_symbol_obj [OF k]
    by (auto simp: k split: if_splits)
qed

lemma skip_to_number_obj:
  "skip_to_number n kf = Some (S', kf') \<Longrightarrow> obj kf' = obj kf \<and> parts kf' = parts kf"
proof (induction n arbitrary: kf)
  case 0
  then show ?case by simp
next
  case (Suc n)
  obtain S k where k: "next_symbol kf = (S, k)" by (cases "next_symbol kf")
  show ?case
    using Suc.prems Suc.IH [of k] next_symbol_obj [OF k]
    by (auto simp: k split: if_splits)
qed

lemma read_nids_obj:
  "read_nids js lc a kf = (r, kf') \<Longrightarrow> obj kf' = obj kf \<and> parts kf' = parts kf \<and> part_names kf' = part_names kf"
proof (induction js arbitrary: a kf)
  case Nil
  then show ?case by simp
next
  case (Cons i js)
  obtain S1 k1 where k1: "next_symbol kf = (S1, k1)" by (cases "next_symbol kf")
  obtain S2 k2 where k2: "next_symbol k1 = (S2, k2)" by (cases "next_symbol k1")
  show ?case
    using Cons.prems Cons.IH [of _ k2] next_symbol_obj [OF k1] next_symbol_obj [OF k2]
    by (auto simp: k1 k2 split: if_splits option.splits)
qed

lemma AcceptPart_obj:
  assumes "AcceptPart fuel lc kf = Normal kf' \<or> AcceptPart fuel lc kf = Thrown e kf'"
  shows "obj kf' = obj kf \<and> parts kf' = parts kf"
proof (cases "read_part_name fuel (symbol (currentSymbol (lexer kf))) kf")
  case None
  with assms show ?thesis by (simp add: AcceptPart_def)
next
  case (Some r)
  obtain nm k1 where r: "r = (nm, k1)" by (cases r)
  note a = read_part_name_obj [OF Some [unfolded r]]
  show ?thesis
  proof (cases "skip_to_number fuel k1")
    case None
    with assms Some r show ?thesis by (simp add: AcceptPart_def)
  next
    case (Some q)
    obtain S k2 where q: "q = (S, k2)" by (cases q)
    note b = skip_to_number_obj [OF Some [unfolded q]]
    show ?thesis
      using assms a b \<open>read_part_name fuel (symbol (currentSymbol (lexer kf))) kf = Some r\<close> Some r q
      by (auto simp: AcceptPart_def split: option.splits)
  qed
qed

lemma AcceptNode_Thrown_obj:
  assumes "AcceptNode fuel lc kf = Thrown e kf'"
  shows "obj kf' = obj kf \<and> parts kf' = parts kf"
proof -
  obtain S1 k1 where k1: "next_symbol kf = (S1, k1)" by (cases "next_symbol kf")
  obtain S2 k2 where k2: "next_symbol k1 = (S2, k2)" by (cases "next_symbol k1")
  obtain S3 k3 where k3: "next_symbol k2 = (S3, k3)" by (cases "next_symbol k2")
  obtain S4 k4 where k4: "next_symbol k3 = (S4, k4)" by (cases "next_symbol k3")
  obtain S5 k5 where k5: "next_symbol k4 = (S5, k5)" by (cases "next_symbol k4")
  obtain S6 k6 where k6: "next_symbol k5 = (S6, k6)" by (cases "next_symbol k5")
  note o = next_symbol_obj [OF k1] next_symbol_obj [OF k2] next_symbol_obj [OF k3]
    next_symbol_obj [OF k4] next_symbol_obj [OF k5] next_symbol_obj [OF k6]
  show ?thesis
    using assms o
    by (auto simp: AcceptNode_def malformed_def k1 k2 k3 k4 k5 k6 Let_def
        split: option.splits if_splits)
qed

lemma AcceptNode_Normal_obj:
  assumes "AcceptNode fuel lc kf = Normal kf'"
  shows "extends (obj kf) (obj kf') \<and> elements (obj kf') = elements (obj kf) \<and> parts kf' = parts kf"
proof -
  obtain S1 k1 where k1: "next_symbol kf = (S1, k1)" by (cases "next_symbol kf")
  obtain S2 k2 where k2: "next_symbol k1 = (S2, k2)" by (cases "next_symbol k1")
  obtain S3 k3 where k3: "next_symbol k2 = (S3, k3)" by (cases "next_symbol k2")
  obtain S4 k4 where k4: "next_symbol k3 = (S4, k4)" by (cases "next_symbol k3")
  obtain S5 k5 where k5: "next_symbol k4 = (S5, k5)" by (cases "next_symbol k4")
  obtain S6 k6 where k6: "next_symbol k5 = (S6, k6)" by (cases "next_symbol k5")
  note o = next_symbol_obj [OF k1] next_symbol_obj [OF k2] next_symbol_obj [OF k3]
    next_symbol_obj [OF k4] next_symbol_obj [OF k5] next_symbol_obj [OF k6]
  show ?thesis
    using assms o
    by (auto simp: AcceptNode_def malformed_def k1 k2 k3 k4 k5 k6 Let_def
        extends_def AddNode_def split: option.splits if_splits dest!: skip_to_newline_obj)
qed

lemma AddElement_Inr: "AddElement es eid pid e = Inr es' \<Longrightarrow> eid \<notin> set (eids es) \<and> es' = push_element es eid pid e"
  by (auto simp: AddElement_def split: if_splits)

lemma push_element_eids: "eids (push_element es eid pid e) = eids es @ [eid]"
  by (simp add: push_element_def split: prod.splits)

lemma extends_push_element:
  "elements D' = push_element (elements D) eid pid e \<Longrightarrow> nodes D' = nodes D \<Longrightarrow> extends D D'"
  by (simp add: extends_def push_element_def split: prod.splits)

text \<open>What \<^verbatim>\<open>AcceptElement\<close> leaves behind, whether it returns or throws.\<close>

lemma AcceptElement_obj:
  assumes "AcceptElement lc kf = Normal kf' \<or> AcceptElement lc kf = Thrown err kf'"
  shows "extends (obj kf) (obj kf') \<and>
    (distinct (eids (elements (obj kf))) \<longrightarrow> distinct (eids (elements (obj kf'))))"
proof -
  obtain S1 k1 where k1: "next_symbol kf = (S1, k1)" by (cases "next_symbol kf")
  obtain S2 k2 where k2: "next_symbol k1 = (S2, k2)" by (cases "next_symbol k1")
  obtain r k3 where k3: "read_nids [0..<8] lc (replicate 8 0) k2 = (r, k3)"
    by (cases "read_nids [0..<8] lc (replicate 8 0) k2")
  note o = next_symbol_obj [OF k1] next_symbol_obj [OF k2] read_nids_obj [OF k3]
  show ?thesis
    using assms o
    by (auto simp: AcceptElement_def malformed_def k1 k2 k3 Let_def parts_subscript_def
        extends_refl extends_push_element push_element_eids
        split: option.splits if_splits sum.splits dest!: AddElement_Inr)
qed

lemma parse_switch_inv:
  assumes "parse_switch fuel lc st S kf = (st', Normal kf') \<or> parse_switch fuel lc st S kf = (st', Thrown e kf')"
  shows "extends (obj kf) (obj kf') \<and>
    (distinct (eids (elements (obj kf))) \<longrightarrow> distinct (eids (elements (obj kf'))))"
proof -
  have n: "\<And>k. AcceptNode fuel lc kf = Normal k \<or> AcceptNode fuel lc kf = Thrown e k \<Longrightarrow>
      extends (obj kf) (obj k) \<and> (distinct (eids (elements (obj kf))) \<longrightarrow> distinct (eids (elements (obj k))))"
    using AcceptNode_Normal_obj AcceptNode_Thrown_obj extends_refl by metis
  have p: "\<And>k. AcceptPart fuel lc kf = Normal k \<or> AcceptPart fuel lc kf = Thrown e k \<Longrightarrow>
      extends (obj kf) (obj k) \<and> (distinct (eids (elements (obj kf))) \<longrightarrow> distinct (eids (elements (obj k))))"
    using AcceptPart_obj extends_refl by metis
  note el = AcceptElement_obj [of lc kf kf' e]
  show ?thesis
    using assms n [of kf'] p [of kf'] el
    by (auto simp: parse_switch_def extends_refl split: if_splits)
qed

lemma parse_loop_inv:
  assumes "parse_loop n fuel lc st S kf = Normal kf' \<or> parse_loop n fuel lc st S kf = Thrown e kf'"
  shows "extends (obj kf) (obj kf') \<and>
    (distinct (eids (elements (obj kf))) \<longrightarrow> distinct (eids (elements (obj kf'))))"
  using assms
proof (induction n arbitrary: st S kf)
  case 0
  then show ?case by simp
next
  case (Suc n)
  show ?case
  proof (cases "type S = END_OF_FILE")
    case True
    with Suc.prems show ?thesis by (auto simp: extends_refl)
  next
    case False
    obtain st1 r where r: "parse_switch fuel lc st S kf = (st1, r)"
      by (cases "parse_switch fuel lc st S kf")
    show ?thesis
    proof (cases r)
      case (Normal k1)
      obtain S2 k2 where k2: "next_symbol k1 = (S2, k2)" by (cases "next_symbol k1")
      have 1: "extends (obj kf) (obj k1) \<and>
          (distinct (eids (elements (obj kf))) \<longrightarrow> distinct (eids (elements (obj k1))))"
        using parse_switch_inv [of fuel lc st S kf st1 k1] r Normal by simp
      have "parse_loop n fuel lc st1 S2 k2 = Normal kf' \<or> parse_loop n fuel lc st1 S2 k2 = Thrown e kf'"
        using Suc.prems False r Normal k2 by simp
      from Suc.IH [OF this] have 2: "extends (obj k2) (obj kf') \<and>
          (distinct (eids (elements (obj k2))) \<longrightarrow> distinct (eids (elements (obj kf'))))" .
      have "obj k2 = obj k1" using next_symbol_obj [OF k2] by simp
      with 1 2 show ?thesis by (auto intro: extends_trans)
    next
      case (Thrown e1 k1)
      then have "e1 = e \<and> k1 = kf'" using Suc.prems False r by simp
      then show ?thesis
        using parse_switch_inv [of fuel lc st S kf st1 kf' e] r Thrown by simp
    next
      case Diverges
      then show ?thesis using Suc.prems False r by simp
    qed
  qed
qed

lemma Parse_inv:
  assumes "Parse fuel lc kf input = Normal kf' \<or> Parse fuel lc kf input = Thrown e kf'"
  shows "extends (obj kf) (obj kf') \<and>
    (distinct (eids (elements (obj kf))) \<longrightarrow> distinct (eids (elements (obj kf'))))"
proof -
  obtain S k where k: "next_symbol (kf\<lparr>lexer := new_KeyFileLexer input\<rparr>) = (S, k)"
    by (cases "next_symbol (kf\<lparr>lexer := new_KeyFileLexer input\<rparr>)")
  have o: "obj k = obj kf" using next_symbol_obj [OF k] by simp
  show ?thesis
  proof (cases "parse_loop fuel fuel lc 0 S k")
    case (Normal k1)
    then have "kf' = name_parts k1" using assms k by (simp add: Parse_def)
    then have "obj kf' = obj k1" by (simp add: name_parts_def)
    then show ?thesis
      using parse_loop_inv [of fuel fuel lc 0 S k k1 e] Normal o by simp
  next
    case (Thrown e1 k1)
    then have "e1 = e \<and> k1 = kf'" using assms k by (simp add: Parse_def)
    then show ?thesis
      using parse_loop_inv [of fuel fuel lc 0 S k kf' e] Thrown o by simp
  next
    case Diverges
    then show ?thesis using assms k by (simp add: Parse_def)
  qed
qed

lemma parse_rounds_extends:
  "parse_rounds i fuel lc st S kf = Some (st', S', k') \<Longrightarrow> extends (obj kf) (obj k')"
proof (induction i arbitrary: st S kf)
  case 0
  then show ?case by (simp add: extends_refl)
next
  case (Suc i)
  from Suc.prems have ne: "type S \<noteq> END_OF_FILE"
    by (auto split: if_splits)
  obtain st1 r where r: "parse_switch fuel lc st S kf = (st1, r)"
    by (cases "parse_switch fuel lc st S kf")
  from Suc.prems ne r obtain k1 where k1: "r = Normal k1"
    by (cases r) auto
  obtain S2 k2 where k2: "next_symbol k1 = (S2, k2)" by (cases "next_symbol k1")
  have "parse_rounds i fuel lc st1 S2 k2 = Some (st', S', k')"
    using Suc.prems ne r k1 k2 by simp
  from Suc.IH [OF this] have "extends (obj k2) (obj k')" .
  moreover have "obj k2 = obj k1" using next_symbol_obj [OF k2] by simp
  moreover have "extends (obj kf) (obj k1)"
    using parse_switch_inv [of fuel lc st S kf st1 k1] r k1 by simp
  ultimately show ?case by (auto intro: extends_trans)
qed

lemma parse_rounds_Thrown:
  "parse_rounds i fuel lc st S kf = Some (st', S', k') \<Longrightarrow>
   parse_loop n fuel lc st S kf = Thrown e kf' \<Longrightarrow>
   \<exists>m. parse_loop m fuel lc st' S' k' = Thrown e kf'"
proof (induction i arbitrary: n st S kf)
  case 0
  then show ?case by auto
next
  case (Suc i)
  from Suc.prems(1) have ne: "type S \<noteq> END_OF_FILE"
    by (auto split: if_splits)
  obtain st1 r where r: "parse_switch fuel lc st S kf = (st1, r)"
    by (cases "parse_switch fuel lc st S kf")
  from Suc.prems(1) ne r obtain k1 where k1: "r = Normal k1"
    by (cases r) auto
  obtain S2 k2 where k2: "next_symbol k1 = (S2, k2)" by (cases "next_symbol k1")
  have 1: "parse_rounds i fuel lc st1 S2 k2 = Some (st', S', k')"
    using Suc.prems(1) ne r k1 k2 by simp
  obtain n' where n: "n = Suc n'"
    using Suc.prems(2) by (cases n) auto
  have 2: "parse_loop n' fuel lc st1 S2 k2 = Thrown e kf'"
    using Suc.prems(2) ne r k1 k2 by (simp add: n)
  from Suc.IH [OF 1 2] show ?case .
qed

lemma AcceptNode_Normal_adds:
  assumes "AcceptNode fuel lc kf = Normal kf'"
  shows "\<exists>nid c. cast_int lc (symbol (currentSymbol (lexer kf))) = Some nid
     \<and> nodes (obj kf') = AddNode (nodes (obj kf)) nid c"
proof -
  obtain S1 k1 where k1: "next_symbol kf = (S1, k1)" by (cases "next_symbol kf")
  obtain S2 k2 where k2: "next_symbol k1 = (S2, k2)" by (cases "next_symbol k1")
  obtain S3 k3 where k3: "next_symbol k2 = (S3, k3)" by (cases "next_symbol k2")
  obtain S4 k4 where k4: "next_symbol k3 = (S4, k4)" by (cases "next_symbol k3")
  obtain S5 k5 where k5: "next_symbol k4 = (S5, k5)" by (cases "next_symbol k4")
  obtain S6 k6 where k6: "next_symbol k5 = (S6, k6)" by (cases "next_symbol k5")
  note o = next_symbol_obj [OF k1] next_symbol_obj [OF k2] next_symbol_obj [OF k3]
    next_symbol_obj [OF k4] next_symbol_obj [OF k5] next_symbol_obj [OF k6]
  show ?thesis
    using assms o
    by (fastforce simp: AcceptNode_def malformed_def k1 k2 k3 k4 k5 k6 Let_def
        split: option.splits if_splits dest!: skip_to_newline_obj)
qed

lemma AcceptElement_Normal_adds:
  assumes "AcceptElement lc kf = Normal kf'"
  shows "\<exists>eid pid e. cast_int lc (symbol (currentSymbol (lexer kf))) = Some eid
     \<and> elements (obj kf') = push_element (elements (obj kf)) eid pid e"
proof -
  obtain S1 k1 where k1: "next_symbol kf = (S1, k1)" by (cases "next_symbol kf")
  obtain S2 k2 where k2: "next_symbol k1 = (S2, k2)" by (cases "next_symbol k1")
  obtain r k3 where k3: "read_nids [0..<8] lc (replicate 8 0) k2 = (r, k3)"
    by (cases "read_nids [0..<8] lc (replicate 8 0) k2")
  note o = next_symbol_obj [OF k1] next_symbol_obj [OF k2] read_nids_obj [OF k3]
  show ?thesis
    using assms o
    by (fastforce simp: AcceptElement_def malformed_def k1 k2 k3 Let_def parts_subscript_def
        split: option.splits if_splits sum.splits dest!: AddElement_Inr)
qed

lemma next_symbol_frame:
  "next_symbol (kf\<lparr>obj := D, parts := p\<rparr>) =
     (fst (next_symbol kf), (snd (next_symbol kf))\<lparr>obj := D, parts := p\<rparr>)"
  by (simp add: next_symbol_def split_def)

lemma next_symbol_line:
  "lexer (snd (next_symbol (kf\<lparr>obj := D, parts := p\<rparr>))) = lexer (snd (next_symbol kf))"
  by (simp add: next_symbol_def split_def)

lemma read_nids_frame:
  "read_nids js lc a (kf\<lparr>obj := D, parts := p\<rparr>) =
     (fst (read_nids js lc a kf), (snd (read_nids js lc a kf))\<lparr>obj := D, parts := p\<rparr>)"
proof (induction js arbitrary: a kf)
  case Nil
  then show ?case by simp
next
  case (Cons i js)
  show ?case
    by (simp add: next_symbol_frame Cons.IH split_def split: option.splits)
qed

lemma AcceptElement_duplicate:
  assumes c: "cast_int lc (symbol (currentSymbol (lexer kf))) = Some eid"
    and d: "eid \<in> set (eids (elements (obj kf)))"
  shows "\<exists>e kf'. AcceptElement lc kf = Thrown e kf' \<and> obj kf' = obj kf \<and> parts kf' = parts kf
    \<and> ((\<exists>k. AcceptElement lc (kf\<lparr>obj := empty_FiniteElementObject, parts := Map.empty\<rparr>) = Normal k)
         \<longrightarrow> e = DuplicateIdError)"
proof -
  obtain S1 k1 where k1: "next_symbol kf = (S1, k1)" by (cases "next_symbol kf")
  obtain S2 k2 where k2: "next_symbol k1 = (S2, k2)" by (cases "next_symbol k1")
  obtain r k3 where k3: "read_nids [0..<8] lc (replicate 8 0) k2 = (r, k3)"
    by (cases "read_nids [0..<8] lc (replicate 8 0) k2")
  note o = next_symbol_obj [OF k1] next_symbol_obj [OF k2] read_nids_obj [OF k3]
  have f1: "next_symbol (kf\<lparr>obj := empty_FiniteElementObject, parts := Map.empty\<rparr>)
      = (S1, k1\<lparr>obj := empty_FiniteElementObject, parts := Map.empty\<rparr>)"
    by (simp add: next_symbol_frame k1)
  have f2: "next_symbol (k1\<lparr>obj := empty_FiniteElementObject, parts := Map.empty\<rparr>)
      = (S2, k2\<lparr>obj := empty_FiniteElementObject, parts := Map.empty\<rparr>)"
    by (simp add: next_symbol_frame k2)
  have f3: "read_nids [0..<8] lc (replicate 8 0) (k2\<lparr>obj := empty_FiniteElementObject, parts := Map.empty\<rparr>)
      = (r, k3\<lparr>obj := empty_FiniteElementObject, parts := Map.empty\<rparr>)"
    by (simp add: read_nids_frame k3)
  show ?thesis
    using c d o
    by (auto simp: AcceptElement_def malformed_def k1 k2 k3 f1 f2 f3 AddElement_def Let_def
        split: option.splits if_splits sum.splits)
qed

lemmas parser_defs = Parse_def next_symbol_def parse_switch_def is_keyword_def tolower_def
  c_str_def AcceptNode_def AcceptElement_def AcceptPart_def malformed_def is_separator_def
  AddNode_def AddElement_def push_element_def parts_subscript_def name_parts_def
  new_KeyFile_def empty_FiniteElementObject_def empty_Nodes_def empty_Elements_def

lemma four_plus: "4 + n = Suc (Suc (Suc (Suc n)))"
  by simp

text \<open>
  Claim C4 (the code does otherwise). On \<^verbatim>\<open>"*NODE\n1 0.0\n"\<close>, with conversions that accept
  \<^verbatim>\<open>"1"\<close> and \<^verbatim>\<open>"0.0"\<close>, \<^verbatim>\<open>Parse\<close> throws the malformed-list error with the line number 3:
  the newline that ends the short record has been consumed, and counted, before the throw.
  No node is added: the document at the throw is the empty one.
\<close>

theorem Parse_short_node_record_cites_next_line:
  assumes "cast_int lc ''1'' = Some nid" and "cast_double lc ''0.0'' = Some x1"
  shows "Parse (4 + n) lc new_KeyFile ''*NODE\<newline>1 0.0\<newline>'' =
    Thrown (SyntaxError 3)
      (new_KeyFile\<lparr>lexer := \<lparr>stream = [], state = 0,
         currentSymbol = \<lparr>type = NEWLINE, symbol = ''\<newline>''\<rparr>, current_line = 3\<rparr>\<rparr>)"
  using assms
  by (simp add: four_plus parser_defs lexer_defs accept_defs char_defs Let_def)

theorem Parse_short_node_record_cites_next_line_witness:
  "Parse 4 example_cast new_KeyFile ''*NODE\<newline>1 0.0\<newline>'' =
    Thrown (SyntaxError 3)
      (new_KeyFile\<lparr>lexer := \<lparr>stream = [], state = 0,
         currentSymbol = \<lparr>type = NEWLINE, symbol = ''\<newline>''\<rparr>, current_line = 3\<rparr>\<rparr>)"
  using Parse_short_node_record_cites_next_line [of example_cast 1 0 0]
  by (simp add: example_cast_def)

text \<open>
  A file whose second node record is short: the first record is stored when the second
  one throws.
\<close>

lemma Parse_second_record_short:
  "Parse 10 example_cast new_KeyFile ''*NODE\<newline>1 0 0 0\<newline>2 0.0\<newline>'' =
     Thrown (SyntaxError 4)
       \<lparr>lexer = \<lparr>stream = [], state = 0,
          currentSymbol = \<lparr>type = NEWLINE, symbol = ''\<newline>''\<rparr>, current_line = 4\<rparr>,
        obj = \<lparr>nodes = \<lparr>nids = [1], x = [0], y = [0], z = [0]\<rparr>,
               elements = empty_Elements,
               element_index = Map.empty, node_index = [1 \<mapsto> 0]\<rparr>,
        part_names = Map.empty, parts = Map.empty\<rparr>"
  by (simp add: numeral_eq_Suc example_cast_def parser_defs lexer_defs accept_defs char_defs Let_def)

text \<open>
  Claim C6, as stated, fails: after the syntax error of the second record, the node of the
  first record of the same input is still stored in the document.
\<close>

theorem Parse_error_keeps_earlier_records:
  "Parse 10 example_cast new_KeyFile ''*NODE\<newline>1 0 0 0\<newline>2 0.0\<newline>'' =
     Thrown (SyntaxError 4)
       \<lparr>lexer = \<lparr>stream = [], state = 0,
          currentSymbol = \<lparr>type = NEWLINE, symbol = ''\<newline>''\<rparr>, current_line = 4\<rparr>,
        obj = \<lparr>nodes = \<lparr>nids = [1], x = [0], y = [0], z = [0]\<rparr>,
               elements = empty_Elements,
               element_index = Map.empty, node_index = [1 \<mapsto> 0]\<rparr>,
        part_names = Map.empty, parts = Map.empty\<rparr>"
  by (rule Parse_second_record_short)

text \<open>
  The lexer just behind the id of a record \<^verbatim>\<open>10 5 1 2 0 0 0 0 0 0\<close>, as \<^verbatim>\<open>Parse\<close> hands it
  to \<^verbatim>\<open>AcceptElement\<close>, on an empty document: the element is stored.
\<close>

lemma AcceptElement_second_10:
  "AcceptElement example_cast
     \<lparr>lexer = \<lparr>stream = '' 5 1 2 0 0 0 0 0 0\<newline>'', state = 0,
        currentSymbol = \<lparr>type = NUMBER, symbol = ''10''\<rparr>, current_line = 2\<rparr>,
      obj = empty_FiniteElementObject, part_names = Map.empty, parts = Map.empty\<rparr>
   = Normal
     \<lparr>lexer = \<lparr>stream = ''\<newline>'', state = 1,
        currentSymbol = \<lparr>type = NUMBER, symbol = ''0''\<rparr>, current_line = 2\<rparr>,
      obj = \<lparr>nodes = empty_Nodes,
             elements = push_element empty_Elements 10 5 (1, 2, 0, 0, 0, 0, 0, 0),
             element_index = [10 \<mapsto> 0], node_index = Map.empty\<rparr>,
      part_names = Map.empty,
      parts = [5 \<mapsto> push_element empty_Elements 10 5 (1, 2, 0, 0, 0, 0, 0, 0)]\<rparr>"
  by (simp add: example_cast_def parser_defs lexer_defs accept_defs char_defs Let_def
      upt_rec [of 0] upt_rec [of "Suc _"] numeral_eq_Suc)

text \<open>
  A file whose third node record is short, the lexer states at which \<^verbatim>\<open>AcceptNode\<close> is
  entered on its first record and on a short record, and the state of the loop after the
  round of the first record.
\<close>

lemma Parse_third_record_short:
  "Parse 10 example_cast new_KeyFile ''*NODE\<newline>1 0 0 0\<newline>2 0 0 0\<newline>5 0.0\<newline>'' =
     Thrown (SyntaxError 5)
       \<lparr>lexer = \<lparr>stream = [], state = 0,
          currentSymbol = \<lparr>type = NEWLINE, symbol = ''\<newline>''\<rparr>, current_line = 5\<rparr>,
        obj = \<lparr>nodes = \<lparr>nids = [1, 2], x = [0, 0], y = [0, 0], z = [0, 0]\<rparr>,
               elements = empty_Elements,
               element_index = Map.empty, node_index = [1 \<mapsto> 0, 2 \<mapsto> 1]\<rparr>,
        part_names = Map.empty, parts = Map.empty\<rparr>"
  by (simp add: numeral_eq_Suc example_cast_def parser_defs lexer_defs accept_defs char_defs Let_def)

lemma parse_rounds_first_record:
  "parse_rounds 4 10 example_cast 0
     (fst (next_symbol (new_KeyFile
        \<lparr>lexer := new_KeyFileLexer ''*NODE\<newline>1 0 0 0\<newline>2 0 0 0\<newline>5 0.0\<newline>''\<rparr>)))
     (snd (next_symbol (new_KeyFile
        \<lparr>lexer := new_KeyFileLexer ''*NODE\<newline>1 0 0 0\<newline>2 0 0 0\<newline>5 0.0\<newline>''\<rparr>)))
   = Some (2, \<lparr>type = NUMBER, symbol = ''2''\<rparr>,
       \<lparr>lexer = \<lparr>stream = '' 0 0 0\<newline>5 0.0\<newline>'', state = 0,
          currentSymbol = \<lparr>type = NUMBER, symbol = ''2''\<rparr>, current_line = 3\<rparr>,
        obj = \<lparr>nodes = \<lparr>nids = [1], x = [0], y = [0], z = [0]\<rparr>,
               elements = empty_Elements,
               element_index = Map.empty, node_index = [1 \<mapsto> 0]\<rparr>,
        part_names = Map.empty, parts = Map.empty\<rparr>)"
  by (simp add: numeral_eq_Suc example_cast_def parser_defs lexer_defs accept_defs char_defs Let_def)

lemma AcceptNode_short_record:
  "AcceptNode 4 example_cast
     (new_KeyFile\<lparr>lexer := \<lparr>stream = '' 0.0\<newline>'', state = 0,
        currentSymbol = \<lparr>type = NUMBER, symbol = ''1''\<rparr>, current_line = 2\<rparr>\<rparr>)
   = Thrown (SyntaxError 3)
       (new_KeyFile\<lparr>lexer := \<lparr>stream = [], state = 0,
          currentSymbol = \<lparr>type = NEWLINE, symbol = ''\<newline>''\<rparr>, current_line = 3\<rparr>\<rparr>)"
  by (simp add: example_cast_def parser_defs lexer_defs accept_defs char_defs Let_def)

lemma AcceptNode_first_record:
  "AcceptNode 4 example_cast
     (new_KeyFile\<lparr>lexer := \<lparr>stream = '' 0 0 0\<newline>'', state = 0,
        currentSymbol = \<lparr>type = NUMBER, symbol = ''1''\<rparr>, current_line = 2\<rparr>\<rparr>)
   = Normal
       \<lparr>lexer = \<lparr>stream = [], state = 0,
          currentSymbol = \<lparr>type = NEWLINE, symbol = ''\<newline>''\<rparr>, current_line = 3\<rparr>,
        obj = \<lparr>nodes = \<lparr>nids = [1], x = [0], y = [0], z = [0]\<rparr>,
               elements = empty_Elements,
               element_index = Map.empty, node_index = [1 \<mapsto> 0]\<rparr>,
        part_names = Map.empty, parts = Map.empty\<rparr>"
  by (simp add: numeral_eq_Suc example_cast_def parser_defs lexer_defs accept_defs char_defs Let_def)

text \<open>
  Claim C6, amended. When \<^verbatim>\<open>Parse\<close> throws, the \<^verbatim>\<open>KeyFile\<close> is not rolled back. The document
  at the throw extends the document before the parse, and it extends the document of
  every state that the loop of \<^verbatim>\<open>Parse\<close> has passed through on this input before the throw
  (each of which extends the document before the parse): what a round has stored is still
  stored at the throw. A round in which \<^verbatim>\<open>AcceptNode\<close> returns has appended the node of its
  record, with the id read from the current symbol, and one in which \<^verbatim>\<open>AcceptElement\<close>
  returns has appended its element. The node record at which \<^verbatim>\<open>AcceptNode\<close> throws adds
  nothing itself.
\<close>

theorem Parse_Thrown_extends_document:
  "(Parse fuel lc kf input = Thrown e kf' \<longrightarrow> extends (obj kf) (obj kf'))
   \<and> (AcceptNode fuel lc kf = Thrown e kf' \<longrightarrow> obj kf' = obj kf)
   \<and> (Parse fuel lc kf input = Thrown e kf'
        \<and> parse_rounds i fuel lc 0
             (fst (next_symbol (kf\<lparr>lexer := new_KeyFileLexer input\<rparr>)))
             (snd (next_symbol (kf\<lparr>lexer := new_KeyFileLexer input\<rparr>))) = Some (st, S, k) \<longrightarrow>
      extends (obj kf) (obj k) \<and> extends (obj k) (obj kf'))
   \<and> (AcceptNode fuel lc k = Normal k1 \<longrightarrow>
      (\<exists>nid c. cast_int lc (symbol (currentSymbol (lexer k))) = Some nid
         \<and> nodes (obj k1) = AddNode (nodes (obj k)) nid c))
   \<and> (AcceptElement lc k = Normal k1 \<longrightarrow>
      (\<exists>eid pid el. cast_int lc (symbol (currentSymbol (lexer k))) = Some eid
         \<and> elements (obj k1) = push_element (elements (obj k)) eid pid el))"
proof -
  let ?K = "kf\<lparr>lexer := new_KeyFileLexer input\<rparr>"
  have 3: "extends (obj kf) (obj k) \<and> extends (obj k) (obj kf')"
    if p: "Parse fuel lc kf input = Thrown e kf'"
      and r: "parse_rounds i fuel lc 0 (fst (next_symbol ?K)) (snd (next_symbol ?K)) = Some (st, S, k)"
  proof -
    have o: "obj (snd (next_symbol ?K)) = obj kf"
      using next_symbol_obj [of ?K "fst (next_symbol ?K)" "snd (next_symbol ?K)"] by simp
    have l: "parse_loop fuel fuel lc 0 (fst (next_symbol ?K)) (snd (next_symbol ?K)) = Thrown e kf'"
      using p by (auto simp: Parse_def split_def split: outcome.splits)
    from parse_rounds_Thrown [OF r l] obtain m where
      "parse_loop m fuel lc st S k = Thrown e kf'" ..
    then have "extends (obj k) (obj kf')"
      using parse_loop_inv [of m fuel lc st S k kf' e] by simp
    moreover have "extends (obj kf) (obj k)"
      using parse_rounds_extends [OF r] o by simp
    ultimately show ?thesis by simp
  qed
  show ?thesis
    using Parse_inv [of fuel lc kf input kf' e] AcceptNode_Thrown_obj [of fuel lc kf e kf']
      3 AcceptNode_Normal_adds [of fuel lc k k1] AcceptElement_Normal_adds [of lc k k1]
    by blast
qed

theorem Parse_Thrown_extends_document_witness:
  "extends
     \<lparr>nodes = \<lparr>nids = [1], x = [0], y = [0], z = [0]\<rparr>, elements = empty_Elements,
      element_index = Map.empty, node_index = [1 \<mapsto> (0::int)]\<rparr>
     \<lparr>nodes = \<lparr>nids = [1, 2], x = [0, 0], y = [0, 0], z = [0::int, 0]\<rparr>,
      elements = empty_Elements,
      element_index = Map.empty, node_index = [1 \<mapsto> 0, 2 \<mapsto> 1]\<rparr>
   \<and> (\<exists>nid c. cast_int example_cast ''1'' = Some nid
        \<and> \<lparr>nids = [1], x = [0], y = [0], z = [0::int]\<rparr> = AddNode empty_Nodes nid c)
   \<and> (\<exists>eid pid el. cast_int example_cast ''10'' = Some eid
        \<and> push_element empty_Elements 10 5 (1, 2, 0, 0, 0, 0, 0, 0)
            = push_element empty_Elements eid pid el)"
proof -
  let ?input = "''*NODE\<newline>1 0 0 0\<newline>2 0 0 0\<newline>5 0.0\<newline>''"
  let ?D1 = "\<lparr>nodes = \<lparr>nids = [1], x = [0], y = [0], z = [0]\<rparr>, elements = empty_Elements,
      element_index = Map.empty, node_index = [1 \<mapsto> 0]\<rparr> :: int FiniteElementObject"
  let ?k = "\<lparr>lexer = \<lparr>stream = '' 0 0 0\<newline>5 0.0\<newline>'', state = 0,
          currentSymbol = \<lparr>type = NUMBER, symbol = ''2''\<rparr>, current_line = 3\<rparr>,
        obj = ?D1, part_names = Map.empty, parts = Map.empty\<rparr>"
  let ?R = "\<lparr>lexer = \<lparr>stream = [], state = 0,
          currentSymbol = \<lparr>type = NEWLINE, symbol = ''\<newline>''\<rparr>, current_line = 5\<rparr>,
        obj = \<lparr>nodes = \<lparr>nids = [1, 2], x = [0, 0], y = [0, 0], z = [0, 0]\<rparr>,
               elements = empty_Elements,
               element_index = Map.empty, node_index = [1 \<mapsto> 0, 2 \<mapsto> 1]\<rparr>,
        part_names = Map.empty, parts = Map.empty\<rparr> :: int KeyFile"
  let ?T = "(new_KeyFile :: int KeyFile)\<lparr>lexer := \<lparr>stream = '' 0.0\<newline>'', state = 0,
        currentSymbol = \<lparr>type = NUMBER, symbol = ''1''\<rparr>, current_line = 2\<rparr>\<rparr>"
  let ?T' = "(new_KeyFile :: int KeyFile)\<lparr>lexer := \<lparr>stream = [], state = 0,
          currentSymbol = \<lparr>type = NEWLINE, symbol = ''\<newline>''\<rparr>, current_line = 3\<rparr>\<rparr>"
  let ?N = "(new_KeyFile :: int KeyFile)\<lparr>lexer := \<lparr>stream = '' 0 0 0\<newline>'', state = 0,
        currentSymbol = \<lparr>type = NUMBER, symbol = ''1''\<rparr>, current_line = 2\<rparr>\<rparr>"
  let ?N' = "\<lparr>lexer = \<lparr>stream = [], state = 0,
          currentSymbol = \<lparr>type = NEWLINE, symbol = ''\<newline>''\<rparr>, current_line = 3\<rparr>,
        obj = ?D1, part_names = Map.empty, parts = Map.empty\<rparr>"
  let ?E = "\<lparr>lexer = \<lparr>stream = '' 5 1 2 0 0 0 0 0 0\<newline>'', state = 0,
        currentSymbol = \<lparr>type = NUMBER, symbol = ''10''\<rparr>, current_line = 2\<rparr>,
      obj = empty_FiniteElementObject, part_names = Map.empty, parts = Map.empty\<rparr> :: int KeyFile"
  let ?E' = "\<lparr>lexer = \<lparr>stream = ''\<newline>'', state = 1,
        currentSymbol = \<lparr>type = NUMBER, symbol = ''0''\<rparr>, current_line = 2\<rparr>,
      obj = \<lparr>nodes = empty_Nodes,
             elements = push_element empty_Elements 10 5 (1, 2, 0, 0, 0, 0, 0, 0),
             element_index = [10 \<mapsto> 0], node_index = Map.empty\<rparr>,
      part_names = Map.empty,
      parts = [5 \<mapsto> push_element empty_Elements 10 5 (1, 2, 0, 0, 0, 0, 0, 0)]\<rparr> :: int KeyFile"
  have a: "extends (obj ?k) (obj ?R)"
    using Parse_Thrown_extends_document
        [of 10 example_cast new_KeyFile ?input "SyntaxError 5" ?R 4 2
          "\<lparr>type = NUMBER, symbol = ''2''\<rparr>" ?k]
      Parse_third_record_short parse_rounds_first_record
    by blast
  have b: "obj ?T' = obj ?T
      \<and> (\<exists>nid c. cast_int example_cast (symbol (currentSymbol (lexer ?N))) = Some nid
            \<and> nodes (obj ?N') = AddNode (nodes (obj ?N)) nid c)"
    using Parse_Thrown_extends_document [of 4 example_cast ?T _ "SyntaxError 3" ?T' _ _ _ ?N ?N']
      AcceptNode_short_record AcceptNode_first_record
    by blast
  have c: "\<exists>eid pid el. cast_int example_cast (symbol (currentSymbol (lexer ?E))) = Some eid
      \<and> elements (obj ?E') = push_element (elements (obj ?E)) eid pid el"
    using Parse_Thrown_extends_document [of _ example_cast _ _ _ _ _ _ _ ?E ?E']
      AcceptElement_second_10
    by blast
  from a b c show ?thesis
    by (simp add: new_KeyFile_def empty_FiniteElementObject_def)
qed

lemma Parse_element_file:
  "Parse 20 example_cast new_KeyFile ''*ELEMENT_SHELL\<newline>10 5 1 2 0 0 0 0 0 0\<newline>'' =
     Normal
     \<lparr>lexer = \<lparr>stream = [], state = - 1,
        currentSymbol = \<lparr>type = END_OF_FILE, symbol = []\<rparr>, current_line = 3\<rparr>,
      obj = \<lparr>nodes = empty_Nodes,
             elements = push_element empty_Elements 10 5 (1, 2, 0, 0, 0, 0, 0, 0),
             element_index = [10 \<mapsto> 0], node_index = Map.empty\<rparr>,
      part_names = [5 \<mapsto> []],
      parts = [5 \<mapsto> push_element empty_Elements 10 5 (1, 2, 0, 0, 0, 0, 0, 0)]\<rparr>"
  by (simp add: example_cast_def parser_defs lexer_defs accept_defs char_defs Let_def
      upt_rec [of 0] upt_rec [of "Suc _"] numeral_eq_Suc fun_eq_iff)

text \<open>
  Claim C7. When \<^verbatim>\<open>AcceptElement\<close> is entered on an element id that the accumulated document
  already holds (from this file or from one parsed before: \<^verbatim>\<open>Parse\<close> never clears
  \<^verbatim>\<open>obj\<close>), it throws and leaves the document as it was; when the record is one that
  \<^verbatim>\<open>AcceptElement\<close> accepts into an empty document, the error is the duplicate-id error;
  and the loop of \<^verbatim>\<open>Parse\<close>, in the element block on the Number token of that id, ends
  with this throw. Hence a parse, however it ends, keeps the element ids of the document
  distinct.
\<close>

theorem AcceptElement_duplicate_id_throws:
  "(cast_int lc (symbol (currentSymbol (lexer kf))) = Some eid
      \<and> eid \<in> set (eids (elements (obj kf))) \<longrightarrow>
    (\<exists>err k. AcceptElement lc kf = Thrown err k \<and> obj k = obj kf \<and> parts k = parts kf
       \<and> ((\<exists>k0. AcceptElement lc (kf\<lparr>obj := empty_FiniteElementObject, parts := Map.empty\<rparr>)
                  = Normal k0)
            \<longrightarrow> err = DuplicateIdError)
       \<and> (type S = NUMBER \<longrightarrow> parse_loop (Suc n) fuel lc 3 S kf = Thrown err k)))
   \<and> ((Parse fuel lc kf0 input = Normal kf' \<or> Parse fuel lc kf0 input = Thrown e kf')
        \<and> distinct (eids (elements (obj kf0))) \<longrightarrow>
      distinct (eids (elements (obj kf'))))"
proof -
  have "parse_loop (Suc n) fuel lc 3 S kf = Thrown err k"
    if "AcceptElement lc kf = Thrown err k" and "type S = NUMBER" for err k
    using that by (simp add: parse_switch_def)
  then show ?thesis
    using AcceptElement_duplicate [of lc kf eid] Parse_inv [of fuel lc kf0 input kf' e]
    by blast
qed

theorem AcceptElement_duplicate_id_throws_witness:
  "(\<exists>k. AcceptElement example_cast
         \<lparr>lexer = \<lparr>stream = '' 5 1 2 0 0 0 0 0 0\<newline>'', state = 0,
            currentSymbol = \<lparr>type = NUMBER, symbol = ''10''\<rparr>, current_line = 2\<rparr>,
          obj = \<lparr>nodes = empty_Nodes,
                 elements = push_element empty_Elements 10 5 (1, 2, 0, 0, 0, 0, 0, 0),
                 element_index = [10 \<mapsto> 0], node_index = Map.empty\<rparr>,
          part_names = Map.empty,
          parts = [5 \<mapsto> push_element empty_Elements 10 5 (1, 2, 0, 0, 0, 0, 0, 0)]\<rparr>
        = Thrown DuplicateIdError k)
   \<and> distinct (eids (push_element empty_Elements 10 5 (1, 2, 0, 0, 0, 0, 0, 0)))
   \<and> (\<exists>k. Parse 20 example_cast
         \<lparr>lexer = \<lparr>stream = [], state = - 1,
            currentSymbol = \<lparr>type = END_OF_FILE, symbol = []\<rparr>, current_line = 3\<rparr>,
          obj = \<lparr>nodes = empty_Nodes,
                 elements = push_element empty_Elements 10 5 (1, 2, 0, 0, 0, 0, 0, 0),
                 element_index = [10 \<mapsto> 0], node_index = Map.empty\<rparr>,
          part_names = [5 \<mapsto> []],
          parts = [5 \<mapsto> push_element empty_Elements 10 5 (1, 2, 0, 0, 0, 0, 0, 0)]\<rparr>
         ''*ELEMENT_SHELL\<newline>10 5 1 2 0 0 0 0 0 0\<newline>''
        = Thrown DuplicateIdError k)"
proof -
  let ?L = "\<lparr>stream = '' 5 1 2 0 0 0 0 0 0\<newline>'', state = 0,
            currentSymbol = \<lparr>type = NUMBER, symbol = ''10''\<rparr>, current_line = 2\<rparr>"
  let ?es = "push_element empty_Elements 10 5 (1, 2, 0, 0, 0, 0, 0, 0)"
  let ?D = "\<lparr>nodes = empty_Nodes, elements = ?es,
             element_index = [10 \<mapsto> 0], node_index = Map.empty\<rparr> :: int FiniteElementObject"
  let ?K = "\<lparr>lexer = ?L, obj = ?D, part_names = Map.empty, parts = [5 \<mapsto> ?es]\<rparr>"
  let ?R = "\<lparr>lexer = \<lparr>stream = [], state = - 1,
        currentSymbol = \<lparr>type = END_OF_FILE, symbol = []\<rparr>, current_line = 3\<rparr>,
      obj = ?D, part_names = [5 \<mapsto> []], parts = [5 \<mapsto> ?es]\<rparr>"
  have 1: "cast_int example_cast (symbol (currentSymbol (lexer ?K))) = Some 10"
    by (simp add: example_cast_def)
  have 2: "10 \<in> set (eids (elements (obj ?K)))"
    by (simp add: push_element_eids)
  have 3: "\<exists>k0. AcceptElement example_cast
      (?K\<lparr>obj := empty_FiniteElementObject, parts := Map.empty\<rparr>) = Normal k0"
    using AcceptElement_second_10 by simp
  have 4: "Parse 20 example_cast new_KeyFile ''*ELEMENT_SHELL\<newline>10 5 1 2 0 0 0 0 0 0\<newline>'' = Normal ?R"
    by (rule Parse_element_file)
  have 5: "distinct (eids (elements (obj (new_KeyFile :: int KeyFile))))"
    by (simp add: new_KeyFile_def empty_FiniteElementObject_def empty_Elements_def)
  from AcceptElement_duplicate_id_throws
    [of example_cast ?K 10 _ _ 20 new_KeyFile "''*ELEMENT_SHELL\<newline>10 5 1 2 0 0 0 0 0 0\<newline>''" ?R]
  have "(\<exists>err k. AcceptElement example_cast ?K = Thrown err k \<and> err = DuplicateIdError)
      \<and> distinct (eids (elements (obj ?R)))"
    using 1 2 3 4 5 by blast
  moreover have "\<exists>k. Parse 20 example_cast ?R
      ''*ELEMENT_SHELL\<newline>10 5 1 2 0 0 0 0 0 0\<newline>'' = Thrown DuplicateIdError k"
    by (simp add: example_cast_def parser_defs lexer_defs accept_defs char_defs Let_def
        upt_rec [of 0] upt_rec [of "Suc _"] numeral_eq_Suc)
  ultimately show ?thesis by simp
qed

subsection \<open>Loops, vectors and maps\<close>

lemma bindE_Inr [simp]: "bindE (Inr v) f = f v"
  by (simp add: bindE_def)

lemma bindE_Inl [simp]: "bindE (Inl e) f = Inl e"
  by (simp add: bindE_def)

lemma at_nat: "at v (int i) = (if i < length v then Inr (v ! i) else Inl out_of_range)"
  by (simp add: at_def)

lemma for_loop_append: "for_loop (js @ ks) body s = bindE (for_loop js body s) (for_loop ks body)"
  by (induction js arbitrary: s) (auto simp: bindE_def split: sum.splits)

lemma for_loop_snoc:
  "for_loop (js @ [i]) body s = bindE (for_loop js body s) (body i)"
  by (simp add: for_loop_append bindE_def split: sum.splits)

lemma subscript_lookup0: "fst (subscript m k) = lookup0 m k"
  by (simp add: subscript_def lookup0_def split: option.splits)

lemma lookup0_subscript: "lookup0 (snd (subscript m k)) = lookup0 m"
  by (auto simp: subscript_def lookup0_def fun_eq_iff split: option.splits)

lemma remap_element_fst:
  "fst (remap_element m (a1, a2, a3, a4, a5, a6, a7, a8)) =
     (lookup0 m a1, lookup0 m a2, lookup0 m a3, lookup0 m a4,
      lookup0 m a5, lookup0 m a6, lookup0 m a7, lookup0 m a8)"
  by (simp add: remap_element_def split_def Let_def subscript_lookup0 lookup0_subscript)

lemma remap_element_snd: "lookup0 (snd (remap_element m e)) = lookup0 m"
  by (simp add: remap_element_def split_def Let_def lookup0_subscript split: prod.splits)

lemma number_nodes_snoc:
  "number_nodes (vs @ [v]) j m = (number_nodes vs j m)(v \<mapsto> int (j + length vs) + 1)"
  by (induction vs arbitrary: j m) simp_all

lemma dense_ids_Suc: "dense_ids (Suc k) = dense_ids k @ [int k + 1]"
  by (simp add: dense_ids_def)

lemma length_dense_ids [simp]: "length (dense_ids k) = k"
  by (simp add: dense_ids_def)

lemma dense_index_Suc: "(dense_index k)(int k + 1 \<mapsto> int k) = dense_index (Suc k)"
  by (auto simp: dense_index_def fun_eq_iff)

lemma replicate_update_0:
  "k < n \<Longrightarrow> (replicate (n - k) c)[0 := a] = a # replicate (n - Suc k) c"
  by (cases "n - k") (simp_all add: Suc_diff_Suc)

lemma take_replicate_update_nth:
  "k < length v \<Longrightarrow>
     (take k v @ replicate (length v - k) c)[k := v ! k] = take (Suc k) v @ replicate (length v - Suc k) c"
  by (simp add: list_update_append replicate_update_0 take_Suc_conv_app_nth)

lemma dense_replicate_update:
  "k < n \<Longrightarrow>
     (dense_ids k @ replicate (n - k) 0)[k := int k + 1] = dense_ids (Suc k) @ replicate (n - Suc k) 0"
  by (simp add: list_update_append replicate_update_0 dense_ids_Suc)

subsection \<open>\<^verbatim>\<open>Renumber_Nodes\<close> in closed form\<close>

lemma dense_index_0: "dense_index 0 = Map.empty"
  by (auto simp: dense_index_def fun_eq_iff)

lemma renumber_node_step:
  assumes "k < length (nids (nodes P))" and "nodes_upto P k"
  shows "renumber_node P k (m, R\<lparr>nodes := renumbered_nodes P k, node_index := dense_index k\<rparr>) =
    (if nodes_upto P (Suc k)
     then Inr (m(nids (nodes P) ! k \<mapsto> int k + 1),
               R\<lparr>nodes := renumbered_nodes P (Suc k), node_index := dense_index (Suc k)\<rparr>)
     else Inl out_of_range)"
  using assms
  by (auto simp: renumber_node_def at_nat nodes_upto_def renumbered_nodes_def
      take_replicate_update_nth dense_replicate_update dense_index_Suc)

lemma node_loop:
  assumes "k \<le> length (nids (nodes P))"
  shows "for_loop [0..<k] (renumber_node P)
           (m, R\<lparr>nodes := renumbered_nodes P 0, node_index := dense_index 0\<rparr>) =
    (if nodes_upto P k
     then Inr (number_nodes (take k (nids (nodes P))) 0 m,
               R\<lparr>nodes := renumbered_nodes P k, node_index := dense_index k\<rparr>)
     else Inl out_of_range)"
  using assms
proof (induction k)
  case 0
  then show ?case by (simp add: nodes_upto_def)
next
  case (Suc k)
  then have k: "k < length (nids (nodes P))" by simp
  have up: "nodes_upto P (Suc k) \<Longrightarrow> nodes_upto P k"
    by (simp add: nodes_upto_def)
  have tk: "take (Suc k) (nids (nodes P)) = take k (nids (nodes P)) @ [nids (nodes P) ! k]"
    using k by (simp add: take_Suc_conv_app_nth)
  have lk: "length (take k (nids (nodes P))) = k"
    using k by simp
  have nn: "number_nodes (take (Suc k) (nids (nodes P))) 0 m =
      (number_nodes (take k (nids (nodes P))) 0 m)(nids (nodes P) ! k \<mapsto> int k + 1)"
    by (simp only: tk number_nodes_snoc lk add_0)
  show ?case
  proof (cases "nodes_upto P k")
    case True
    then show ?thesis
      using Suc.IH k by (auto simp: for_loop_snoc renumber_node_step nn fun_eq_iff)
  next
    case False
    then show ?thesis
      using Suc.IH k up by (auto simp: for_loop_snoc)
  qed
qed

lemma GetElement_nat:
  "GetElement es (int k) =
     (if k < length (n1 es) \<and> k < length (n2 es) \<and> k < length (n3 es) \<and> k < length (n4 es)
         \<and> k < length (n5 es) \<and> k < length (n6 es) \<and> k < length (n7 es) \<and> k < length (n8 es)
      then Inr (n1 es ! k, n2 es ! k, n3 es ! k, n4 es ! k, n5 es ! k, n6 es ! k, n7 es ! k, n8 es ! k)
      else Inl out_of_range)"
  by (simp add: GetElement_def at_nat)

lemma dense_ids_fresh: "int k + 1 \<notin> set (dense_ids k)"
  by (auto simp: dense_ids_def)

lemma push_renumbered_elements:
  assumes "elements_upto P (Suc k)"
  shows "push_element (renumbered_elements m (elements P) k) (int k + 1) (pids (elements P) ! k)
      (lookup0 m (n1 (elements P) ! k), lookup0 m (n2 (elements P) ! k),
       lookup0 m (n3 (elements P) ! k), lookup0 m (n4 (elements P) ! k),
       lookup0 m (n5 (elements P) ! k), lookup0 m (n6 (elements P) ! k),
       lookup0 m (n7 (elements P) ! k), lookup0 m (n8 (elements P) ! k))
    = renumbered_elements m (elements P) (Suc k)"
  using assms
  by (simp add: push_element_def renumbered_elements_def elements_upto_def dense_ids_Suc
      take_Suc_conv_app_nth)

lemma renumber_element_step:
  assumes "k < length (eids (elements P))" and "elements_upto P k" and "lookup0 m' = lookup0 m"
  shows "if elements_upto P (Suc k)
     then \<exists>m''. renumber_element P k (m', R\<lparr>elements := renumbered_elements m (elements P) k\<rparr>) =
            Inr (m'', R\<lparr>elements := renumbered_elements m (elements P) (Suc k)\<rparr>)
          \<and> lookup0 m'' = lookup0 m
     else renumber_element P k (m', R\<lparr>elements := renumbered_elements m (elements P) k\<rparr>) =
            Inl out_of_range"
proof (cases "elements_upto P (Suc k)")
  case True
  let ?e = "(n1 (elements P) ! k, n2 (elements P) ! k, n3 (elements P) ! k, n4 (elements P) ! k,
      n5 (elements P) ! k, n6 (elements P) ! k, n7 (elements P) ! k, n8 (elements P) ! k)"
  have g: "GetElement (elements P) (int k) = Inr ?e"
    using True by (simp add: GetElement_nat elements_upto_def)
  have f: "fst (remap_element m' ?e) =
      (lookup0 m (n1 (elements P) ! k), lookup0 m (n2 (elements P) ! k),
       lookup0 m (n3 (elements P) ! k), lookup0 m (n4 (elements P) ! k),
       lookup0 m (n5 (elements P) ! k), lookup0 m (n6 (elements P) ! k),
       lookup0 m (n7 (elements P) ! k), lookup0 m (n8 (elements P) ! k))"
    by (simp add: remap_element_fst assms(3))
  have s: "lookup0 (snd (remap_element m' ?e)) = lookup0 m"
    by (simp add: remap_element_snd assms(3))
  have a: "eids (renumbered_elements m (elements P) k) = dense_ids k"
    by (simp add: renumbered_elements_def)
  have "renumber_element P k (m', R\<lparr>elements := renumbered_elements m (elements P) k\<rparr>) =
      Inr (snd (remap_element m' ?e), R\<lparr>elements := renumbered_elements m (elements P) (Suc k)\<rparr>)"
    using True assms(1) push_renumbered_elements [OF True, of m]
    by (simp add: renumber_element_def g split_def Let_def f GetElementID_def GetPartID_def
        at_nat elements_upto_def AddElement_def a dense_ids_fresh)
  with s True show ?thesis by auto
next
  case False
  then show ?thesis
    using assms(1,2)
    by (auto simp: renumber_element_def GetElement_nat elements_upto_def split_def Let_def
        GetElementID_def GetPartID_def at_nat)
qed

lemma renumbered_elements_0: "renumbered_elements m es 0 = empty_Elements"
  by (simp add: renumbered_elements_def empty_Elements_def dense_ids_def)

lemma element_loop:
  assumes "k \<le> length (eids (elements P))"
  shows "if elements_upto P k
     then \<exists>m'. for_loop [0..<k] (renumber_element P)
                  (m, R\<lparr>elements := renumbered_elements m (elements P) 0\<rparr>) =
            Inr (m', R\<lparr>elements := renumbered_elements m (elements P) k\<rparr>)
          \<and> lookup0 m' = lookup0 m
     else for_loop [0..<k] (renumber_element P)
            (m, R\<lparr>elements := renumbered_elements m (elements P) 0\<rparr>) = Inl out_of_range"
  using assms
proof (induction k)
  case 0
  then show ?case by (simp add: elements_upto_def)
next
  case (Suc k)
  then have k: "k < length (eids (elements P))" by simp
  have up: "elements_upto P (Suc k) \<Longrightarrow> elements_upto P k"
    by (simp add: elements_upto_def)
  show ?case
  proof (cases "elements_upto P k")
    case True
    then obtain m' where m': "for_loop [0..<k] (renumber_element P)
                  (m, R\<lparr>elements := renumbered_elements m (elements P) 0\<rparr>) =
            Inr (m', R\<lparr>elements := renumbered_elements m (elements P) k\<rparr>)"
      and l: "lookup0 m' = lookup0 m"
      using Suc.IH k by auto
    show ?thesis
      using renumber_element_step [OF k True l, of R]
      by (simp add: for_loop_snoc m')
  next
    case False
    then show ?thesis
      using Suc.IH k up by (auto simp: for_loop_snoc)
  qed
qed

text \<open>\<^verbatim>\<open>Renumber_Nodes\<close> in closed form.\<close>

lemma Renumber_Nodes_closed:
  "Renumber_Nodes P =
     (if nodes_upto P (length (nids (nodes P))) \<and> elements_upto P (length (eids (elements P)))
      then Inr (renumbered P) else Inl out_of_range)"
proof -
  let ?N = "length (nids (nodes P))" and ?M = "length (eids (elements P))"
  let ?m = "number_nodes (nids (nodes P)) 0 [0 \<mapsto> 0]"
  let ?R0 = "empty_FiniteElementObject :: 'a FiniteElementObject"
  have init: "?R0\<lparr>nodes :=
      \<lparr>nids = replicate ?N 0, x = replicate (length (x (nodes P))) 0,
       y = replicate (length (y (nodes P))) 0, z = replicate (length (z (nodes P))) 0\<rparr>\<rparr>
     = ?R0\<lparr>nodes := renumbered_nodes P 0, node_index := dense_index 0\<rparr>"
    by (simp add: renumbered_nodes_def dense_ids_def dense_index_0 empty_FiniteElementObject_def)
  have n: "for_loop [0..<?N] (renumber_node P)
           ([0 \<mapsto> 0], ?R0\<lparr>nodes := renumbered_nodes P 0, node_index := dense_index 0\<rparr>) =
    (if nodes_upto P ?N
     then Inr (?m, ?R0\<lparr>nodes := renumbered_nodes P ?N, node_index := dense_index ?N\<rparr>)
     else Inl out_of_range)"
    using node_loop [of ?N P "[0 \<mapsto> 0]" ?R0] by simp
  let ?R1 = "?R0\<lparr>nodes := renumbered_nodes P ?N, node_index := dense_index ?N\<rparr>"
  have r1: "?R1 = ?R1\<lparr>elements := renumbered_elements ?m (elements P) 0\<rparr>"
    by (simp add: renumbered_elements_0 empty_FiniteElementObject_def)
  have fin: "?R1\<lparr>elements := renumbered_elements ?m (elements P) ?M\<rparr> = renumbered P"
    by (simp add: renumbered_def empty_FiniteElementObject_def)
  note e = element_loop [of ?M P ?m ?R1, simplified r1 [symmetric]]
  show ?thesis
  proof (cases "nodes_upto P ?N")
    case False
    then show ?thesis
      by (simp add: Renumber_Nodes_def Let_def init n)
  next
    case True
    show ?thesis
    proof (cases "elements_upto P ?M")
      case False
      with e True show ?thesis
        by (simp add: Renumber_Nodes_def Let_def init n)
    next
      case e_ok: True
      with e obtain m' where "for_loop [0..<?M] (renumber_element P) (?m, ?R1) =
            Inr (m', ?R1\<lparr>elements := renumbered_elements ?m (elements P) ?M\<rparr>)"
        by auto
      with True e_ok fin show ?thesis
        by (simp add: Renumber_Nodes_def Let_def init n)
    qed
  qed
qed

lemma number_nodes_notin: "v \<notin> set vs \<Longrightarrow> number_nodes vs j m v = m v"
  by (induction vs arbitrary: j m) auto

lemma number_nodes_nth:
  "distinct vs \<Longrightarrow> i < length vs \<Longrightarrow> number_nodes vs j m (vs ! i) = Some (int (j + i) + 1)"
proof (induction vs arbitrary: j m i)
  case Nil
  then show ?case by simp
next
  case (Cons v vs)
  show ?case
  proof (cases i)
    case 0
    then show ?thesis
      using Cons.prems by (simp add: number_nodes_notin)
  next
    case (Suc i')
    then show ?thesis
      using Cons.prems Cons.IH [of i' "Suc j"] by simp
  qed
qed

lemma number_nodes_range:
  "number_nodes vs j m v = Some r \<Longrightarrow>
     m v = Some r \<or> (int j + 1 \<le> r \<and> r \<le> int j + int (length vs))"
proof (induction vs arbitrary: j m)
  case Nil
  then show ?case by simp
next
  case (Cons w ws)
  have "number_nodes ws (Suc j) (m(w \<mapsto> int j + 1)) v = Some r"
    using Cons.prems by simp
  from Cons.IH [OF this]
  have "(m(w \<mapsto> int j + 1)) v = Some r
      \<or> (int (Suc j) + 1 \<le> r \<and> r \<le> int (Suc j) + int (length ws))" .
  then show ?case by (auto split: if_splits)
qed

lemma lookup0_table_range:
  "0 \<le> lookup0 (number_nodes vs 0 [0 \<mapsto> 0]) v
   \<and> lookup0 (number_nodes vs 0 [0 \<mapsto> 0]) v \<le> int (length vs)"
proof (cases "number_nodes vs 0 [0 \<mapsto> 0] v")
  case None
  then show ?thesis by (simp add: lookup0_def)
next
  case (Some r)
  from number_nodes_range [OF Some] show ?thesis
    by (auto simp: lookup0_def Some split: if_splits)
qed

lemma lookup0_table_absent:
  "v \<notin> set vs \<Longrightarrow> lookup0 (number_nodes vs 0 [0 \<mapsto> 0]) v = 0"
  by (simp add: lookup0_def number_nodes_notin)

lemma lookup0_table_nth:
  "distinct vs \<Longrightarrow> i < length vs \<Longrightarrow> lookup0 (number_nodes vs 0 [0 \<mapsto> 0]) (vs ! i) = int i + 1"
  by (simp add: lookup0_def number_nodes_nth)

lemma distinct_dense_ids: "distinct (dense_ids n)"
  by (simp add: dense_ids_def distinct_map inj_on_def)

lemma lookup0_dense:
  assumes "0 \<le> w" and "w \<le> int n"
  shows "lookup0 (number_nodes (dense_ids n) 0 [0 \<mapsto> 0]) w = w"
proof (cases "w = 0")
  case True
  have "0 \<notin> set (dense_ids n)" by (auto simp: dense_ids_def)
  then show ?thesis
    using True by (simp add: lookup0_def number_nodes_notin)
next
  case False
  then have i: "nat w - 1 < length (dense_ids n)" and w: "dense_ids n ! (nat w - 1) = w"
    using assms by (auto simp: dense_ids_def)
  from lookup0_table_nth [OF distinct_dense_ids i] w show ?thesis
    using False assms by simp
qed

lemma dense_ids_upto: "dense_ids n = [1..int n]"
proof (induction n)
  case 0
  then show ?case by (simp add: dense_ids_def)
next
  case (Suc n)
  have "[1..int (Suc n)] = [1..int n] @ [int n + 1]"
    using upto_rec2 [of 1 "int n + 1"] by (simp add: add.commute)
  with Suc show ?case by (simp add: dense_ids_Suc)
qed

lemma consistent_upto:
  "consistent P \<Longrightarrow>
     nodes_upto P (length (nids (nodes P))) \<and> elements_upto P (length (eids (elements P)))"
  by (simp add: consistent_def nodes_upto_def elements_upto_def)

lemma slot_remapped_table:
  assumes "distinct ids" and "0 \<notin> set ids" and "\<forall>v\<in>set old. v = 0 \<or> v \<in> set ids"
  shows "slot_remapped ids old (map (lookup0 (number_nodes ids 0 [0 \<mapsto> 0])) old)"
proof -
  have z: "lookup0 (number_nodes ids 0 [0 \<mapsto> 0]) 0 = 0"
    using assms(2) by (simp add: lookup0_table_absent)
  have nz: "lookup0 (number_nodes ids 0 [0 \<mapsto> 0]) (old ! i) \<noteq> 0"
    if "i < length old" "old ! i \<noteq> 0" for i
  proof -
    from that assms(3) have "old ! i \<in> set ids" by (auto simp: all_set_conv_all_nth)
    then obtain j where "j < length ids" "ids ! j = old ! i" by (auto simp: in_set_conv_nth)
    with lookup0_table_nth [OF assms(1), of j] show ?thesis by auto
  qed
  show ?thesis
    unfolding slot_remapped_def
    using z nz lookup0_table_nth [OF assms(1)] by auto
qed

subsection \<open>The renumberer\<close>

text \<open>
  Claim C2. For a document \<open>P\<close> with \<open>N\<close> nodes of distinct ids, none of them 0, and \<open>M\<close>
  elements whose nonzero slots are node ids of \<open>P\<close>, \<^verbatim>\<open>Renumber_Nodes\<close> returns a document
  whose node ids are \<open>1, ..., N\<close> in the order of \<open>P\<close> with the coordinates of \<open>P\<close>, whose
  element ids are \<open>1, ..., M\<close> in the order of \<open>P\<close>, whose part ids are those of \<open>P\<close>, and
  whose connectivity vectors are those of \<open>P\<close> with the id at node position \<open>j\<close> replaced
  by \<open>j + 1\<close>, 0 kept, and 0 nowhere else.
\<close>

theorem Renumber_Nodes_dense:
  assumes c: "consistent P"
    and d: "distinct (nids (nodes P))"
    and z: "0 \<notin> set (nids (nodes P))"
    and r: "\<forall>v\<in>set (concat (slots (elements P))). v = 0 \<or> v \<in> set (nids (nodes P))"
  shows "\<exists>R. Renumber_Nodes P = Inr R
     \<and> nids (nodes R) = [1..int (length (nids (nodes P)))]
     \<and> x (nodes R) = x (nodes P) \<and> y (nodes R) = y (nodes P) \<and> z (nodes R) = z (nodes P)
     \<and> eids (elements R) = [1..int (length (eids (elements P)))]
     \<and> pids (elements R) = pids (elements P)
     \<and> list_all2 (slot_remapped (nids (nodes P))) (slots (elements P)) (slots (elements R))"
proof -
  let ?m = "number_nodes (nids (nodes P)) 0 [0 \<mapsto> 0]"
  have R: "Renumber_Nodes P = Inr (renumbered P)"
    using consistent_upto [OF c] by (simp add: Renumber_Nodes_closed)
  have s: "slot_remapped (nids (nodes P)) v (map (lookup0 ?m) v)"
    if "v \<in> set (slots (elements P))" for v
    using that r by (intro slot_remapped_table [OF d z]) auto
  have "list_all2 (slot_remapped (nids (nodes P))) (slots (elements P))
      (slots (elements (renumbered P)))"
    using c s by (simp add: slots_def renumbered_def renumbered_elements_def consistent_def)
  then show ?thesis
    using c by (simp add: R renumbered_def renumbered_nodes_def renumbered_elements_def
        consistent_def dense_ids_upto)
qed

lemma renumbered_again:
  assumes n: "nodes_upto P (length (nids (nodes P)))"
    and e: "elements_upto P (length (eids (elements P)))"
  shows "nodes_upto (renumbered P) (length (nids (nodes (renumbered P))))"
    and "elements_upto (renumbered P) (length (eids (elements (renumbered P))))"
    and "renumbered (renumbered P) = renumbered P"
proof -
  let ?N = "length (nids (nodes P))" and ?M = "length (eids (elements P))"
  let ?m = "number_nodes (nids (nodes P)) 0 [0 \<mapsto> 0]"
  let ?m' = "number_nodes (dense_ids ?N) 0 [0 \<mapsto> 0]"
  have id: "lookup0 ?m' (lookup0 ?m v) = lookup0 ?m v" for v
    using lookup0_table_range [of "nids (nodes P)" v] by (simp add: lookup0_dense)
  show "nodes_upto (renumbered P) (length (nids (nodes (renumbered P))))"
    using n by (simp add: renumbered_def renumbered_nodes_def nodes_upto_def)
  show "elements_upto (renumbered P) (length (eids (elements (renumbered P))))"
    using e by (simp add: renumbered_def renumbered_elements_def elements_upto_def)
  show "renumbered (renumbered P) = renumbered P"
    using n e
    by (simp add: renumbered_def renumbered_nodes_def renumbered_elements_def nodes_upto_def
        elements_upto_def id)
qed

text \<open>
  Claim C8. A document that \<^verbatim>\<open>Renumber_Nodes\<close> returns is returned unchanged by
  \<^verbatim>\<open>Renumber_Nodes\<close>: node ids, their order, coordinates, element ids, part ids,
  connectivity and both indices are the same.
\<close>

theorem Renumber_Nodes_idempotent:
  assumes "Renumber_Nodes P = Inr R"
  shows "Renumber_Nodes R = Inr R"
proof -
  from assms have u: "nodes_upto P (length (nids (nodes P)))"
      "elements_upto P (length (eids (elements P)))" and R: "R = renumbered P"
    by (auto simp: Renumber_Nodes_closed split: if_splits)
  from renumbered_again [OF u] show ?thesis
    by (simp add: Renumber_Nodes_closed R)
qed

subsection \<open>The part extractor\<close>

lemma collect_append: "collect acc (vs @ ws) = collect (collect acc vs) ws"
  by (induction vs arbitrary: acc) simp_all

lemma collect_set: "set (collect acc vs) = set acc \<union> {v \<in> set vs. v \<noteq> 0}"
  by (induction vs arbitrary: acc) auto

lemma collect_distinct: "distinct acc \<Longrightarrow> distinct (collect acc vs)"
  by (induction vs arbitrary: acc) auto

lemma subscript_cases:
  "subscript m n = (lookup0 m n, if m n = None then m(n \<mapsto> 0) else m)"
  by (simp add: subscript_def lookup0_def split: option.splits)

lemma lookup0_insert_0: "m n = None \<Longrightarrow> lookup0 (m(n \<mapsto> 0)) = lookup0 m"
  by (auto simp: lookup0_def fun_eq_iff)

lemma copy_node_in_range:
  assumes p: "n = 0 \<or> (0 \<le> position_of D n \<and> position_of D n < int (length (nids (nodes D))))"
    and c: "consistent D" and i: "nodes_copied D P" and m: "lookup0 m = lookup0 (node_index D)"
  shows "\<exists>P' m'. copy_node n (D\<lparr>node_index := m\<rparr>, P) = Inr (D\<lparr>node_index := m'\<rparr>, P')
    \<and> lookup0 m' = lookup0 (node_index D)
    \<and> (n = 0 \<or> m n \<noteq> None \<longrightarrow> m' = m)
    \<and> nodes_copied D P'
    \<and> nids (nodes P') = collect (nids (nodes P)) [n]
    \<and> elements P' = elements P \<and> element_index P' = element_index P"
proof (cases "node_index P n = None \<and> n \<noteq> 0")
  case False
  then have "n \<in> set (nids (nodes P)) \<or> n = 0"
    using i by (auto simp: nodes_copied_def)
  then have "collect (nids (nodes P)) [n] = nids (nodes P)" by auto
  with False i m show ?thesis by (auto simp: copy_node_def)
next
  case True
  then have nn: "n \<notin> set (nids (nodes P))" and n0: "n \<noteq> 0"
    using i by (auto simp: nodes_copied_def)
  let ?k = "position_of D n"
  let ?m' = "if m n = None then m(n \<mapsto> 0) else m"
  have l: "lookup0 m n = ?k"
    by (simp add: position_of_def m)
  have k0: "0 \<le> ?k" and kl: "?k < int (length (nids (nodes D)))"
    using p n0 by auto
  have m': "lookup0 ?m' = lookup0 (node_index D)"
    using m by (simp add: lookup0_insert_0)
  let ?P' = "P\<lparr>nodes := AddNode (nodes P) n (x (nodes D) ! nat ?k, y (nodes D) ! nat ?k, z (nodes D) ! nat ?k),
      node_index := (node_index P)(n \<mapsto> int (length (x (AddNode (nodes P) n
         (x (nodes D) ! nat ?k, y (nodes D) ! nat ?k, z (nodes D) ! nat ?k)))) - 1)\<rparr>"
  have "copy_node n (D\<lparr>node_index := m\<rparr>, P) = Inr (D\<lparr>node_index := ?m'\<rparr>, ?P')"
    using True c k0 kl
    by (simp add: copy_node_def subscript_cases l at_def consistent_def Let_def)
  moreover have "nodes_copied D ?P'"
    using i by (auto simp: nodes_copied_def AddNode_def)
  moreover have "nids (nodes ?P') = collect (nids (nodes P)) [n]"
    using nn n0 by (simp add: AddNode_def)
  ultimately show ?thesis
    using m' n0 by (intro exI [of _ ?P'] exI [of _ ?m']) simp
qed

lemma copy_all_in_range:
  assumes "\<forall>n\<in>set ns. n = 0 \<or> (0 \<le> position_of D n \<and> position_of D n < int (length (nids (nodes D))))"
    and "consistent D" and "nodes_copied D P" and "lookup0 m = lookup0 (node_index D)"
  shows "\<exists>P' m'. copy_all ns (D\<lparr>node_index := m\<rparr>, P) = Inr (D\<lparr>node_index := m'\<rparr>, P')
    \<and> lookup0 m' = lookup0 (node_index D)
    \<and> ((\<forall>n\<in>set ns. n = 0 \<or> m n \<noteq> None) \<longrightarrow> m' = m)
    \<and> nodes_copied D P'
    \<and> nids (nodes P') = collect (nids (nodes P)) ns
    \<and> elements P' = elements P \<and> element_index P' = element_index P"
  using assms
proof (induction ns arbitrary: P m)
  case Nil
  then show ?case by auto
next
  case (Cons n ns)
  from Cons.prems have "n = 0 \<or> (0 \<le> position_of D n \<and> position_of D n < int (length (nids (nodes D))))"
    by simp
  from copy_node_in_range [OF this Cons.prems(2,3,4)]
  obtain P1 m1 where 1: "copy_node n (D\<lparr>node_index := m\<rparr>, P) = Inr (D\<lparr>node_index := m1\<rparr>, P1)"
    and l1: "lookup0 m1 = lookup0 (node_index D)"
    and s1: "n = 0 \<or> m n \<noteq> None \<longrightarrow> m1 = m"
    and c1: "nodes_copied D P1"
    and i1: "nids (nodes P1) = collect (nids (nodes P)) [n]"
    and e1: "elements P1 = elements P" "element_index P1 = element_index P"
    by blast
  from Cons.IH [OF _ Cons.prems(2) c1 l1] Cons.prems(1)
  obtain P2 m2 where 2: "copy_all ns (D\<lparr>node_index := m1\<rparr>, P1) = Inr (D\<lparr>node_index := m2\<rparr>, P2)"
    and l2: "lookup0 m2 = lookup0 (node_index D)"
    and s2: "(\<forall>n\<in>set ns. n = 0 \<or> m1 n \<noteq> None) \<longrightarrow> m2 = m1"
    and c2: "nodes_copied D P2"
    and i2: "nids (nodes P2) = collect (nids (nodes P1)) ns"
    and e2: "elements P2 = elements P1" "element_index P2 = element_index P1"
    by auto
  have "nids (nodes P2) = collect (nids (nodes P)) (n # ns)"
    using i1 i2 by simp
  moreover have "(\<forall>a\<in>set (n # ns). a = 0 \<or> m a \<noteq> None) \<longrightarrow> m2 = m"
    using s1 s2 by auto
  ultimately show ?case
    using 1 2 l2 c2 e1 e2 by (intro exI [of _ P2] exI [of _ m2]) simp
qed

lemma isolate_step_copy_all:
  "isolate_step pid i (D, P) =
     bindE (at (pids (elements D)) (int i)) (\<lambda>p.
      if p = pid then
        bindE (at (eids (elements D)) (int i)) (\<lambda>eid.
        bindE (GetElement (elements D) (int i)) (\<lambda>e.
        (let es = push_element (elements P) eid p e
         in copy_all [last (n1 es), last (n2 es), last (n3 es), last (n4 es),
                      last (n5 es), last (n6 es), last (n7 es), last (n8 es)]
              (D, P\<lparr>elements := es,
                    element_index := (element_index P)(eid \<mapsto> int (length (eids es)) - 1)\<rparr>))))
      else Inr (D, P))"
  by (simp add: isolate_step_def Let_def bindE_def split: sum.splits)

lemma push_select_rows:
  "pids es ! k = p \<Longrightarrow>
   push_element (select_rows es js) (eids es ! k) p
      (n1 es ! k, n2 es ! k, n3 es ! k, n4 es ! k, n5 es ! k, n6 es ! k, n7 es ! k, n8 es ! k)
   = select_rows es (js @ [k])"
  by (auto simp: push_element_def select_rows_def)

lemma row_in_slots:
  assumes "consistent D" and "k < length (eids (elements D))"
  shows "set (row (elements D) k) \<subseteq> set (concat (slots (elements D)))"
  using assms by (auto simp: row_def slots_def consistent_def)

lemma isolate_step_in_range:
  assumes k: "k < length (eids (elements D))" and c: "consistent D"
    and r: "lookups_in_range D" and i: "nodes_copied D P"
    and e: "elements P = select_rows (elements D) js"
    and m: "lookup0 m = lookup0 (node_index D)"
  shows "\<exists>P' m'. isolate_step p k (D\<lparr>node_index := m\<rparr>, P) = Inr (D\<lparr>node_index := m'\<rparr>, P')
    \<and> lookup0 m' = lookup0 (node_index D)
    \<and> ((\<forall>n\<in>set (row (elements D) k). n = 0 \<or> m n \<noteq> None) \<longrightarrow> m' = m)
    \<and> nodes_copied D P'
    \<and> elements P' = select_rows (elements D) (js @ (if pids (elements D) ! k = p then [k] else []))
    \<and> nids (nodes P') =
        collect (nids (nodes P)) (if pids (elements D) ! k = p then row (elements D) k else [])"
proof (cases "pids (elements D) ! k = p")
  case False
  then have "isolate_step p k (D\<lparr>node_index := m\<rparr>, P) = Inr (D\<lparr>node_index := m\<rparr>, P)"
    using k c by (simp add: isolate_step_copy_all at_nat consistent_def)
  with False i e m show ?thesis by auto
next
  case True
  let ?E = "elements D"
  let ?e = "(n1 ?E ! k, n2 ?E ! k, n3 ?E ! k, n4 ?E ! k, n5 ?E ! k, n6 ?E ! k, n7 ?E ! k, n8 ?E ! k)"
  let ?es = "select_rows ?E (js @ [k])"
  let ?P1 = "P\<lparr>elements := ?es,
      element_index := (element_index P)(eids ?E ! k \<mapsto> int (length (eids ?es)) - 1)\<rparr>"
  have g: "GetElement ?E (int k) = Inr ?e"
    using k c by (simp add: GetElement_nat consistent_def)
  have l: "[last (n1 ?es), last (n2 ?es), last (n3 ?es), last (n4 ?es),
            last (n5 ?es), last (n6 ?es), last (n7 ?es), last (n8 ?es)] = row ?E k"
    by (simp add: select_rows_def row_def)
  have step: "isolate_step p k (D\<lparr>node_index := m\<rparr>, P) =
      copy_all (row ?E k) (D\<lparr>node_index := m\<rparr>, ?P1)"
    using k c True l
    by (simp add: isolate_step_copy_all at_nat consistent_def g e push_select_rows Let_def
        del: copy_all.simps)
  have i1: "nodes_copied D ?P1"
    using i by (simp add: nodes_copied_def)
  have "\<forall>n\<in>set (row ?E k).
      n = 0 \<or> (0 \<le> position_of D n \<and> position_of D n < int (length (nids (nodes D))))"
    using r row_in_slots [OF c k] by (auto simp: lookups_in_range_def)
  from copy_all_in_range [OF this c i1 m]
  obtain P' m' where "copy_all (row ?E k) (D\<lparr>node_index := m\<rparr>, ?P1) = Inr (D\<lparr>node_index := m'\<rparr>, P')"
    and "lookup0 m' = lookup0 (node_index D)"
    and "(\<forall>n\<in>set (row ?E k). n = 0 \<or> m n \<noteq> None) \<longrightarrow> m' = m"
    and "nodes_copied D P'"
    and "nids (nodes P') = collect (nids (nodes ?P1)) (row ?E k)"
    and "elements P' = elements ?P1"
    by blast
  with step True show ?thesis
    by (intro exI [of _ P'] exI [of _ m']) simp
qed

lemma isolate_loop:
  assumes k: "k \<le> length (eids (elements D))" and c: "consistent D"
    and r: "lookups_in_range D"
  shows "\<exists>P m'. for_loop [0..<k] (isolate_step p) (D, empty_FiniteElementObject)
        = Inr (D\<lparr>node_index := m'\<rparr>, P)
    \<and> lookup0 m' = lookup0 (node_index D)
    \<and> ((\<forall>n\<in>set (concat (slots (elements D))). n = 0 \<or> node_index D n \<noteq> None)
         \<longrightarrow> m' = node_index D)
    \<and> nodes_copied D P
    \<and> elements P = select_rows (elements D) (filter (\<lambda>i. pids (elements D) ! i = p) [0..<k])
    \<and> nids (nodes P) =
        collect [] (concat (map (row (elements D)) (filter (\<lambda>i. pids (elements D) ! i = p) [0..<k])))"
  using k
proof (induction k)
  case 0
  have "nodes_copied D empty_FiniteElementObject"
    by (simp add: nodes_copied_def empty_FiniteElementObject_def empty_Nodes_def)
  moreover have "elements (empty_FiniteElementObject :: 'a FiniteElementObject) = select_rows (elements D) []"
    by (simp add: empty_FiniteElementObject_def empty_Elements_def select_rows_def)
  moreover have "nids (nodes (empty_FiniteElementObject :: 'a FiniteElementObject)) = []"
    by (simp add: empty_FiniteElementObject_def empty_Nodes_def)
  ultimately show ?case
    by (intro exI [of _ empty_FiniteElementObject] exI [of _ "node_index D"]) simp
next
  case (Suc k)
  then have kk: "k < length (eids (elements D))" by simp
  let ?js = "filter (\<lambda>i. pids (elements D) ! i = p) [0..<k]"
  let ?ri = "\<forall>n\<in>set (concat (slots (elements D))). n = 0 \<or> node_index D n \<noteq> None"
  from Suc.IH kk obtain P m where
    1: "for_loop [0..<k] (isolate_step p) (D, empty_FiniteElementObject) = Inr (D\<lparr>node_index := m\<rparr>, P)"
    and l: "lookup0 m = lookup0 (node_index D)"
    and s: "?ri \<longrightarrow> m = node_index D"
    and 2: "nodes_copied D P" and 3: "elements P = select_rows (elements D) ?js"
    and 4: "nids (nodes P) = collect [] (concat (map (row (elements D)) ?js))"
    by auto
  from isolate_step_in_range [OF kk c r 2 3 l, of p]
  obtain P' m' where 5: "isolate_step p k (D\<lparr>node_index := m\<rparr>, P) = Inr (D\<lparr>node_index := m'\<rparr>, P')"
    and l': "lookup0 m' = lookup0 (node_index D)"
    and s': "(\<forall>n\<in>set (row (elements D) k). n = 0 \<or> m n \<noteq> None) \<longrightarrow> m' = m"
    and 6: "nodes_copied D P'"
    and 7: "elements P' = select_rows (elements D)
        (?js @ (if pids (elements D) ! k = p then [k] else []))"
    and 8: "nids (nodes P') =
        collect (nids (nodes P)) (if pids (elements D) ! k = p then row (elements D) k else [])"
    by blast
  have "for_loop [0..<Suc k] (isolate_step p) (D, empty_FiniteElementObject)
      = Inr (D\<lparr>node_index := m'\<rparr>, P')"
    by (simp add: for_loop_snoc 1 5)
  moreover have "nids (nodes P') = collect []
      (concat (map (row (elements D)) (filter (\<lambda>i. pids (elements D) ! i = p) [0..<Suc k])))"
    by (simp add: 8 4 collect_append)
  moreover have "elements P' = select_rows (elements D)
      (filter (\<lambda>i. pids (elements D) ! i = p) [0..<Suc k])"
    by (simp add: 7)
  moreover have "?ri \<longrightarrow> m' = node_index D"
    using s s' row_in_slots [OF c kk] by auto
  ultimately show ?case
    using 6 l' by (intro exI [of _ P'] exI [of _ m']) simp
qed

lemma select_rows_refs:
  "set (concat (slots (select_rows es js))) = set (concat (map (row es) js))"
  by (auto simp: slots_def select_rows_def row_def)

lemma node_present_position:
  "node_present D v \<Longrightarrow>
     node_index D v \<noteq> None \<and> 0 \<le> position_of D v
     \<and> position_of D v < int (length (nids (nodes D)))
     \<and> nids (nodes D) ! nat (position_of D v) = v"
  by (cases "node_index D v") (auto simp: node_present_def position_of_def lookup0_def)

lemma integrity_in_range: "referential_integrity D \<Longrightarrow> lookups_in_range D"
  unfolding referential_integrity_def lookups_in_range_def
  using node_present_position by blast

lemma integrity_indexed:
  "referential_integrity D \<Longrightarrow>
     \<forall>n\<in>set (concat (slots (elements D))). n = 0 \<or> node_index D n \<noteq> None"
  unfolding referential_integrity_def
  using node_present_position by blast

text \<open>
  Claim C1. For a document \<open>D\<close> with referential integrity and a part id \<open>p\<close>,
  \<^verbatim>\<open>IsolatePart\<close> returns (leaving \<open>D\<close> as it was) a document whose elements are the
  elements of \<open>D\<close> with part id \<open>p\<close>, in their order in \<open>D\<close>; whose node ids are the nonzero
  ids that these elements reference, each once, in the order of first reference; 0 is not
  among them; and each node has the coordinates stored in \<open>D\<close> for its id.
\<close>

theorem IsolatePart_extracts_part:
  assumes c: "consistent D" and r: "referential_integrity D"
  shows "\<exists>P. IsolatePart ps D p = Inr (P, D)
    \<and> elements P = select_rows (elements D) (part_rows D p)
    \<and> (\<forall>q\<in>set (pids (elements P)). q = p)
    \<and> nids (nodes P) = collect [] (concat (map (row (elements D)) (part_rows D p)))
    \<and> distinct (nids (nodes P))
    \<and> set (nids (nodes P)) = {v \<in> set (concat (slots (elements P))). v \<noteq> 0}
    \<and> 0 \<notin> set (nids (nodes P))
    \<and> nodes_copied D P"
proof -
  from isolate_loop [OF le_refl c integrity_in_range [OF r], of p] integrity_indexed [OF r]
  obtain P where 1: "for_loop [0..<length (eids (elements D))] (isolate_step p)
        (D, empty_FiniteElementObject) = Inr (D\<lparr>node_index := node_index D\<rparr>, P)"
    and 2: "nodes_copied D P"
    and 3: "elements P = select_rows (elements D) (part_rows D p)"
    and 4: "nids (nodes P) = collect [] (concat (map (row (elements D)) (part_rows D p)))"
    unfolding part_rows_def by blast
  have "IsolatePart ps D p = Inr (P, D)"
    by (simp add: IsolatePart_def 1)
  moreover have "\<forall>q\<in>set (pids (elements P)). q = p"
    by (auto simp: 3 select_rows_def part_rows_def)
  moreover have "distinct (nids (nodes P))"
    by (simp add: 4 collect_distinct)
  moreover have "set (nids (nodes P)) = {v \<in> set (concat (slots (elements P))). v \<noteq> 0}"
    unfolding 4 3 select_rows_refs by (simp add: collect_set)
  moreover have "0 \<notin> set (nids (nodes P))"
    by (simp add: 4 collect_set)
  ultimately show ?thesis using 2 3 4 by blast
qed
lemmas transform_defs = IsolatePart_def isolate_step_def copy_node_def Renumber_Nodes_def
  renumber_node_def renumber_element_def remap_element_def GetElement_def GetElementID_def
  GetPartID_def AddElement_def push_element_def AddNode_def subscript_def at_def
  empty_FiniteElementObject_def empty_Nodes_def empty_Elements_def

lemma IsolatePart_dangling:
  "IsolatePart Map.empty dangling_document 5 =
     Inr (\<lparr>nodes = \<lparr>nids = [1, 7], x = [4, 4], y = [5, 5], z = [6, 6]\<rparr>,
           elements = elements dangling_document,
           element_index = [10 \<mapsto> 0],
           node_index = [1 \<mapsto> 0, 7 \<mapsto> 1]\<rparr>,
          dangling_document\<lparr>node_index := [1 \<mapsto> 0, 7 \<mapsto> 0]\<rparr>)"
  by (simp add: transform_defs dangling_document_def Let_def)

lemma Renumber_Nodes_dangling:
  "Renumber_Nodes dangling_document =
     Inr \<lparr>nodes = \<lparr>nids = [1], x = [4], y = [5], z = [6]\<rparr>,
          elements = \<lparr>eids = [1], pids = [5], n1 = [1], n2 = [0], n3 = [0],
                  n4 = [0], n5 = [0], n6 = [0], n7 = [0], n8 = [0]\<rparr>,
          element_index = Map.empty,
          node_index = [1 \<mapsto> 0]\<rparr>"
  by (simp add: transform_defs dangling_document_def Let_def)

lemma absent_to_zero_table:
  "absent_to_zero ids old (map (lookup0 (number_nodes ids 0 [0 \<mapsto> 0])) old)"
  by (simp add: absent_to_zero_def lookup0_table_absent)

text \<open>
  Claim C5, as stated, fails: element 10 of \<open>dangling_document\<close> references the node id 7,
  which the node table does not hold, and both transforms return without an error.
  \<^verbatim>\<open>IsolatePart\<close> copies 7 as a node with the coordinates of the first stored node (and
  enters 7 into the index of the source), \<^verbatim>\<open>Renumber_Nodes\<close> maps the slot to 0.
\<close>

theorem dangling_reference_is_accepted:
  "IsolatePart Map.empty dangling_document 5 =
     Inr (\<lparr>nodes = \<lparr>nids = [1, 7], x = [4, 4], y = [5, 5], z = [6, 6]\<rparr>,
           elements = elements dangling_document,
           element_index = [10 \<mapsto> 0],
           node_index = [1 \<mapsto> 0, 7 \<mapsto> 1]\<rparr>,
          dangling_document\<lparr>node_index := [1 \<mapsto> 0, 7 \<mapsto> 0]\<rparr>)
   \<and> Renumber_Nodes dangling_document =
     Inr \<lparr>nodes = \<lparr>nids = [1], x = [4], y = [5], z = [6]\<rparr>,
          elements = \<lparr>eids = [1], pids = [5], n1 = [1], n2 = [0], n3 = [0],
                  n4 = [0], n5 = [0], n6 = [0], n7 = [0], n8 = [0]\<rparr>,
          element_index = Map.empty,
          node_index = [1 \<mapsto> 0]\<rparr>"
  using IsolatePart_dangling Renumber_Nodes_dangling by simp

text \<open>
  Claim C5, amended. A connectivity slot whose node id the node table does not hold raises
  no error of its own. On a consistent document \<^verbatim>\<open>Renumber_Nodes\<close> always returns, and every
  slot whose value is not among the node ids becomes 0. \<^verbatim>\<open>IsolatePart\<close> returns whenever
  the positions it looks up for the nonzero slots are positions of the node list, leaving
  the nodes and elements of the source as they were; the position of an id that the index
  does not hold is 0, so such an id is copied with the coordinates of the first stored
  node.
\<close>

theorem dangling_reference_raises_no_error:
  "(consistent D \<longrightarrow>
      (\<exists>R. Renumber_Nodes D = Inr R
         \<and> list_all2 (absent_to_zero (nids (nodes D))) (slots (elements D)) (slots (elements R))))
   \<and> (consistent D \<and> lookups_in_range D \<longrightarrow>
      (\<exists>P D'. IsolatePart ps D p = Inr (P, D')
         \<and> nodes D' = nodes D \<and> elements D' = elements D
         \<and> nids (nodes P) = collect [] (concat (map (row (elements D)) (part_rows D p)))
         \<and> nodes_copied D P))
   \<and> (node_index D v = None \<longrightarrow> position_of D v = 0)"
proof (intro conjI impI)
  assume c: "consistent D"
  have R: "Renumber_Nodes D = Inr (renumbered D)"
    using consistent_upto [OF c] by (simp add: Renumber_Nodes_closed)
  have "list_all2 (absent_to_zero (nids (nodes D))) (slots (elements D))
      (slots (elements (renumbered D)))"
    using c by (simp add: slots_def renumbered_def renumbered_elements_def consistent_def
        absent_to_zero_table)
  with R show "\<exists>R. Renumber_Nodes D = Inr R
         \<and> list_all2 (absent_to_zero (nids (nodes D))) (slots (elements D)) (slots (elements R))"
    by simp
next
  assume a: "consistent D \<and> lookups_in_range D"
  from isolate_loop [of "length (eids (elements D))" D p] a
  obtain P m' where 1: "for_loop [0..<length (eids (elements D))] (isolate_step p)
        (D, empty_FiniteElementObject) = Inr (D\<lparr>node_index := m'\<rparr>, P)"
    and 2: "nodes_copied D P"
    and 4: "nids (nodes P) = collect [] (concat (map (row (elements D)) (part_rows D p)))"
    unfolding part_rows_def by auto
  have "IsolatePart ps D p = Inr (P, D\<lparr>node_index := m'\<rparr>)"
    by (simp add: IsolatePart_def 1)
  with 2 4 show "\<exists>P D'. IsolatePart ps D p = Inr (P, D')
         \<and> nodes D' = nodes D \<and> elements D' = elements D
         \<and> nids (nodes P) = collect [] (concat (map (row (elements D)) (part_rows D p)))
         \<and> nodes_copied D P"
    by simp
next
  assume "node_index D v = None"
  then show "position_of D v = 0"
    by (simp add: position_of_def lookup0_def)
qed

lemma consistent_dangling: "consistent dangling_document"
  by (simp add: consistent_def dangling_document_def)

lemma lookups_dangling: "lookups_in_range dangling_document"
  by (simp add: lookups_in_range_def dangling_document_def slots_def position_of_def lookup0_def)

theorem dangling_reference_raises_no_error_witness:
  "(\<exists>R. Renumber_Nodes dangling_document = Inr R
         \<and> list_all2 (absent_to_zero [1]) (slots (elements dangling_document)) (slots (elements R)))
   \<and> (\<exists>P D'. IsolatePart Map.empty dangling_document 5 = Inr (P, D') \<and> nodes_copied dangling_document P)
   \<and> position_of dangling_document 7 = 0"
proof -
  have n: "node_index dangling_document 7 = None" "nids (nodes dangling_document) = [1]"
    by (simp_all add: dangling_document_def)
  from dangling_reference_raises_no_error [of dangling_document Map.empty 5 7]
    consistent_dangling lookups_dangling n
  show ?thesis by auto
qed

lemma consistent_example: "consistent example_document"
  by (simp add: consistent_def example_document_def)

lemma integrity_example: "referential_integrity example_document"
  by (simp add: referential_integrity_def node_present_def example_document_def slots_def)

theorem IsolatePart_extracts_part_witness:
  "\<exists>P. IsolatePart Map.empty example_document 5 = Inr (P, example_document)
     \<and> eids (elements P) = [10] \<and> pids (elements P) = [5] \<and> nids (nodes P) = [3, 7]"
proof -
  have r: "part_rows example_document 5 = [0]"
    by (simp add: part_rows_def example_document_def upt_rec [of 0] upt_rec [of "Suc _"] numeral_eq_Suc)
  from IsolatePart_extracts_part [OF consistent_example integrity_example, of Map.empty 5]
  obtain P where "IsolatePart Map.empty example_document 5 = Inr (P, example_document)"
    and "elements P = select_rows (elements example_document) (part_rows example_document 5)"
    and "nids (nodes P) = collect []
       (concat (map (row (elements example_document)) (part_rows example_document 5)))"
    by blast
  then show ?thesis
    unfolding r
    by (intro exI [of _ P]) (simp add: select_rows_def row_def example_document_def)
qed

theorem Renumber_Nodes_dense_witness:
  "\<exists>R. Renumber_Nodes example_document = Inr R
     \<and> nids (nodes R) = [1, 2] \<and> x (nodes R) = [70, 30] \<and> eids (elements R) = [1, 2]
     \<and> pids (elements R) = [5, 6]"
proof -
  have h: "distinct (nids (nodes example_document))" "0 \<notin> set (nids (nodes example_document))"
    "\<forall>v\<in>set (concat (slots (elements example_document))). v = 0 \<or> v \<in> set (nids (nodes example_document))"
    by (simp_all add: example_document_def slots_def)
  from Renumber_Nodes_dense [OF consistent_example h]
  obtain R where "Renumber_Nodes example_document = Inr R"
    and "nids (nodes R) = [1..int (length (nids (nodes example_document)))]"
    and "x (nodes R) = x (nodes example_document)"
    and "eids (elements R) = [1..int (length (eids (elements example_document)))]"
    and "pids (elements R) = pids (elements example_document)"
    by blast
  then show ?thesis
    by (intro exI [of _ R]) (simp add: example_document_def upto_rec1)
qed

theorem Renumber_Nodes_idempotent_witness:
  "Renumber_Nodes (renumbered example_document) = Inr (renumbered example_document)"
proof -
  have "Renumber_Nodes example_document = Inr (renumbered example_document)"
    using consistent_upto [OF consistent_example] by (simp add: Renumber_Nodes_closed)
  then show ?thesis by (rule Renumber_Nodes_idempotent)
qed

end
